theory Spec2Isabelle
  imports Complex_Main "HOL-Library.Monad_Syntax"
begin

section \<open>JavaScript numbers and arrays\<close>

text \<open>
  The dashboard computes with JavaScript numbers. The embedding takes a finite number
  to be a real and writes NaN (and \<open>undefined\<close> used as a number) as \<open>None\<close>:
  a \<open>real option\<close> is a number that may be NaN. Rounding of IEEE doubles is not
  modelled; every statement below is about the exact arithmetic of the formulas.
\<close>

type_synonym jsnum = "real option"

definition num_add :: "jsnum \<Rightarrow> jsnum \<Rightarrow> jsnum" where
  "num_add a b = (case a of None \<Rightarrow> None | Some x \<Rightarrow> (case b of None \<Rightarrow> None | Some y \<Rightarrow> Some (x + y)))"

definition num_sub :: "jsnum \<Rightarrow> jsnum \<Rightarrow> jsnum" where
  "num_sub a b = (case a of None \<Rightarrow> None | Some x \<Rightarrow> (case b of None \<Rightarrow> None | Some y \<Rightarrow> Some (x - y)))"

definition num_mul :: "jsnum \<Rightarrow> jsnum \<Rightarrow> jsnum" where
  "num_mul a b = (case a of None \<Rightarrow> None | Some x \<Rightarrow> (case b of None \<Rightarrow> None | Some y \<Rightarrow> Some (x * y)))"

text \<open>A quotient with divisor zero is NaN or an infinity: not a finite number.\<close>

definition num_div :: "jsnum \<Rightarrow> jsnum \<Rightarrow> jsnum" where
  "num_div a b = (case a of None \<Rightarrow> None | Some x \<Rightarrow>
     (case b of None \<Rightarrow> None | Some y \<Rightarrow> if y = 0 then None else Some (x / y)))"

text \<open>\<open>Math.sqrt\<close>: NaN on a negative argument (HOL's \<open>sqrt\<close> is odd instead).\<close>

definition num_sqrt :: "jsnum \<Rightarrow> jsnum" where
  "num_sqrt a = (case a of None \<Rightarrow> None | Some x \<Rightarrow> if x < 0 then None else Some (sqrt x))"

text \<open>\<open>xs[i]\<close>: \<open>undefined\<close> out of range.\<close>

definition js_index :: "'a list \<Rightarrow> nat \<Rightarrow> 'a option" where
  "js_index xs i = (if i < length xs then Some (xs ! i) else None)"

text \<open>Reading an array of numbers: \<open>undefined\<close> counts as NaN in arithmetic.\<close>

definition num_at :: "jsnum list \<Rightarrow> nat \<Rightarrow> jsnum" where
  "num_at xs i = (case js_index xs i of None \<Rightarrow> None | Some v \<Rightarrow> v)"

text \<open>\<open>xs.map((x, i) => f(x, i))\<close>.\<close>

definition imap :: "('a \<Rightarrow> nat \<Rightarrow> 'b) \<Rightarrow> 'a list \<Rightarrow> 'b list" where
  "imap f xs = map (\<lambda>(x, i). f x i) (zip xs [0..<length xs])"

text \<open>\<open>xs.findIndex(p)\<close>: \<open>None\<close> is the result -1.\<close>

fun findIndex :: "('a \<Rightarrow> bool) \<Rightarrow> 'a list \<Rightarrow> nat option" where
  "findIndex p [] = None"
| "findIndex p (x # xs) = (if p x then Some 0 else map_option Suc (findIndex p xs))"

text \<open>\<open>Math.trunc\<close> and the remainder \<open>a % b\<close> of finite numbers, \<open>b\<close> not zero:
  the remainder has the sign of the dividend.\<close>

definition js_trunc :: "real \<Rightarrow> int" where
  "js_trunc x = (if 0 \<le> x then \<lfloor>x\<rfloor> else - \<lfloor>- x\<rfloor>)"

definition js_rem :: "real \<Rightarrow> real \<Rightarrow> real" where
  "js_rem a b = a - b * of_int (js_trunc (a / b))"

text \<open>\<open>xs.reduce(f)\<close> with no initial value: the first element starts the
  accumulator; an empty array raises TypeError (\<open>None\<close>).\<close>

fun reduce :: "('a \<Rightarrow> 'a \<Rightarrow> 'a) \<Rightarrow> 'a list \<Rightarrow> 'a option" where
  "reduce f [] = None"
| "reduce f (x # xs) = Some (foldl f x xs)"

section \<open>RAOVisualizer: heading resolution\<close>

definition unwrapHeading :: "real \<Rightarrow> real" where
  "unwrapHeading heading =
     (let h = js_rem (js_rem heading 360 + 360) 360
      in if h > 180 then \<bar>360 - h\<bar> else h)"

definition availableHeadings :: "real list" where
  "availableHeadings = [0, 30, 60, 90, 120, 150, 180]"

definition nearer :: "real \<Rightarrow> real \<Rightarrow> real \<Rightarrow> real" where
  "nearer target prev cur = (if \<bar>cur - target\<bar> < \<bar>prev - target\<bar> then cur else prev)"

definition findNearestHeading :: "real \<Rightarrow> real option" where
  "findNearestHeading heading = reduce (nearer (unwrapHeading heading)) availableHeadings"

section \<open>PowerSpectralDensity\<close>

text \<open>The fields of the class that the computations can read (the chart handles are
  presentation state).\<close>

record PowerSpectralDensity =
  freqRAO :: "real list"
  shipPositions :: "real list"
  displayPositions :: "real list"
  T_exp :: real

subsection \<open>interpolateWaveSpectrum\<close>

text \<open>The body of the arrow function mapped over \<open>raoFreq\<close>.\<close>

definition interpolateAt :: "real list \<Rightarrow> jsnum list \<Rightarrow> real \<Rightarrow> jsnum" where
  "interpolateAt waveFreq waveSpec freq =
     (case findIndex (\<lambda>f. f \<ge> freq) waveFreq of
        None \<Rightarrow> (if waveSpec = [] then None else num_at waveSpec (length waveSpec - 1))
      | Some index \<Rightarrow>
          if index = 0 then num_at waveSpec 0
          else
            let x0 = waveFreq ! (index - 1);
                x1 = waveFreq ! index;
                y0 = num_at waveSpec (index - 1);
                y1 = num_at waveSpec index
            in num_add y0 (num_div (num_mul (Some (freq - x0)) (num_sub y1 y0)) (Some (x1 - x0))))"

definition interpolateWaveSpectrum :: "real list \<Rightarrow> jsnum list \<Rightarrow> real list \<Rightarrow> jsnum list" where
  "interpolateWaveSpectrum waveFreq waveSpec raoFreq = map (interpolateAt waveFreq waveSpec) raoFreq"

subsection \<open>Displacement and acceleration PSDs\<close>

record displacementPSDs =
  heavePSD_unw :: "jsnum list"
  pitchPSD_unw :: "jsnum list"
  crossPSD_unw :: "jsnum list"


record accelerationPSDs =
  accHeavePSD :: "jsnum list"
  accPitchPSD :: "jsnum list"
  accCrossPSD :: "jsnum list"

definition convertToAccelerationPSDs :: "real list \<Rightarrow> displacementPSDs \<Rightarrow> accelerationPSDs" where
  "convertToAccelerationPSDs freqs d =
     \<lparr> accHeavePSD = imap (\<lambda>psd i. num_mul psd (map_option (\<lambda>f. (2 * pi * f) ^ 4) (js_index freqs i)))
                       (heavePSD_unw d),
       accPitchPSD = imap (\<lambda>psd i. num_mul psd (map_option (\<lambda>f. f ^ 4) (js_index freqs i)))
                       (pitchPSD_unw d),
       accCrossPSD = imap (\<lambda>psd i. num_mul psd (map_option (\<lambda>f. f ^ 4) (js_index freqs i)))
                       (crossPSD_unw d) \<rparr>"

subsection \<open>Complex arithmetic and the Wf weighting\<close>

record complex_js =
  real_part :: real
  imag_part :: real

definition complexAdd :: "complex_js \<Rightarrow> complex_js \<Rightarrow> complex_js" where
  "complexAdd a b = \<lparr> real_part = real_part a + real_part b, imag_part = imag_part a + imag_part b \<rparr>"

definition complexMultiply :: "complex_js \<Rightarrow> complex_js \<Rightarrow> complex_js" where
  "complexMultiply a b =
     \<lparr> real_part = real_part a * real_part b - imag_part a * imag_part b,
       imag_part = real_part a * imag_part b + imag_part a * real_part b \<rparr>"

text \<open>With a zero divisor both numerators are zero too, so both components are
  \<open>0 / 0\<close>: NaN, written \<open>None\<close>.\<close>

definition denominator :: "complex_js \<Rightarrow> real" where
  "denominator b = real_part b * real_part b + imag_part b * imag_part b"

definition complexDivide :: "complex_js \<Rightarrow> complex_js \<Rightarrow> complex_js option" where
  "complexDivide a b =
     (if denominator b = 0 then None
      else Some \<lparr> real_part = (real_part a * real_part b + imag_part a * imag_part b) / denominator b,
                  imag_part = (imag_part a * real_part b - real_part a * imag_part b) / denominator b \<rparr>)"

definition complexAbs :: "complex_js \<Rightarrow> real" where
  "complexAbs z = sqrt (real_part z * real_part z + imag_part z * imag_part z)"

definition pi2 :: real where "pi2 = 2 * pi"
definition omega1 :: real where "omega1 = pi2 * 0.08"
definition zeta1 :: real where "zeta1 = 1 / sqrt 2"
definition omega2 :: real where "omega2 = pi2 * 0.63"
definition zeta2 :: real where "zeta2 = 1 / sqrt 2"
definition omega3 :: real where "omega3 = pi2 * 3.5"
definition omega4 :: real where "omega4 = pi2 * 0.25"
definition zeta4 :: real where "zeta4 = 0.86"
definition omega5 :: real where "omega5 = pi2 * 0.06"
definition zeta5 :: real where "zeta5 = 0.80"
definition omega6 :: real where "omega6 = pi2 * 0.10"
definition zeta6 :: real where "zeta6 = 0.80"

text \<open>\<open>s = i\<omega>\<close>, and the expression \<open>s\<^sup>2 + 2\<zeta>\<omega>\<^sub>k s + \<omega>\<^sub>k\<^sup>2\<close> that the source writes out five
  times with \<open>complexAdd\<close> and \<open>complexMultiply\<close>.\<close>

definition s_of :: "real \<Rightarrow> complex_js" where
  "s_of w = \<lparr> real_part = 0, imag_part = w \<rparr>"

definition quadratic :: "complex_js \<Rightarrow> real \<Rightarrow> real \<Rightarrow> complex_js" where
  "quadratic s zeta omega_k =
     complexAdd
       (complexAdd (complexMultiply s s)
                   (complexMultiply \<lparr> real_part = 2 * zeta * omega_k, imag_part = 0 \<rparr> s))
       \<lparr> real_part = omega_k ^ 2, imag_part = 0 \<rparr>"

definition Hh_denominator :: "real \<Rightarrow> complex_js" where
  "Hh_denominator w = quadratic (s_of w) zeta1 omega1"

definition Hl_denominator :: "real \<Rightarrow> complex_js" where
  "Hl_denominator w = quadratic (s_of w) zeta2 omega2"

definition Ht_denominator :: "real \<Rightarrow> complex_js" where
  "Ht_denominator w = quadratic (s_of w) zeta4 omega4"

definition Hs_denominator :: "real \<Rightarrow> complex_js" where
  "Hs_denominator w = quadratic (s_of w) zeta6 omega6"

definition Wf_Hh :: "real \<Rightarrow> complex_js option" where
  "Wf_Hh w = complexDivide (complexMultiply (s_of w) (s_of w)) (Hh_denominator w)"

definition Wf_Hl :: "real \<Rightarrow> complex_js option" where
  "Wf_Hl w = complexDivide \<lparr> real_part = omega2 ^ 2, imag_part = 0 \<rparr> (Hl_denominator w)"

definition Wf_Ht :: "real \<Rightarrow> complex_js option" where
  "Wf_Ht w =
     complexDivide
       (complexAdd (complexMultiply \<lparr> real_part = omega4 ^ 2 / omega3, imag_part = 0 \<rparr> (s_of w))
                   \<lparr> real_part = omega4 ^ 2, imag_part = 0 \<rparr>)
       (Ht_denominator w)"

definition Wf_Hs :: "real \<Rightarrow> complex_js option" where
  "Wf_Hs w = complexDivide (quadratic (s_of w) zeta5 omega5) (Hs_denominator w)"

text \<open>The squared magnitude of the product of the four stages; NaN when a stage is.\<close>

definition Wf_gain :: "real \<Rightarrow> jsnum" where
  "Wf_gain w =
     do { hh \<leftarrow> Wf_Hh w;
          hl \<leftarrow> Wf_Hl w;
          ht \<leftarrow> Wf_Ht w;
          hs \<leftarrow> Wf_Hs w;
          let Wf = complexMultiply (complexMultiply hh hl) (complexMultiply ht hs);
          Some ((complexAbs Wf) ^ 2) }"

definition applyWfWeighting :: "real list \<Rightarrow> jsnum list \<Rightarrow> jsnum list" where
  "applyWfWeighting omega PSD = imap (\<lambda>w i. num_mul (Wf_gain w) (num_at PSD i)) omega"

subsection \<open>Vertical motion PSD and MSDV\<close>


text \<open>The loop \<open>for (i = 1; i < frequencies.length; i++)\<close> over one series.\<close>

definition msdvIntegral :: "jsnum list \<Rightarrow> real list \<Rightarrow> jsnum" where
  "msdvIntegral S_yy frequencies =
     fold (\<lambda>i integral.
             let d\<omega> = frequencies ! i - frequencies ! (i - 1);
                 avgPSD = num_div (num_add (num_at S_yy i) (num_at S_yy (i - 1))) (Some 2)
             in num_add integral (num_mul avgPSD (Some d\<omega>)))
          [1..<length frequencies] (Some 0)"

definition calculateMSDV ::
  "PowerSpectralDensity \<Rightarrow> ('k \<rightharpoonup> jsnum list) \<Rightarrow> real list \<Rightarrow> ('k \<rightharpoonup> jsnum)" where
  "calculateMSDV this verticalPSDs frequencies =
     (\<lambda>position. case verticalPSDs position of
                    None \<Rightarrow> None
                  | Some S_yy \<Rightarrow> Some (num_sqrt (msdvIntegral S_yy frequencies)))"

text \<open>The integral the specification names: the trapezoidal rule over a grid \<open>xs\<close>
  for the values \<open>ys\<close>.\<close>

definition trapezoidal_integral :: "real list \<Rightarrow> real list \<Rightarrow> real" where
  "trapezoidal_integral xs ys =
     (\<Sum>i = 1..<length xs. (ys ! i + ys ! (i - 1)) / 2 * (xs ! i - xs ! (i - 1)))"

section \<open>RAOVisualizer: reading a response table\<close>

subsection \<open>Strings\<close>

text \<open>
  A text is a list of characters with codes below 256. The white space of \<open>trim\<close> and
  of the pattern \<open>\s\<close> in that range is TAB, LF, VT, FF, CR, the space and the
  no-break space.
\<close>

definition is_space :: "char \<Rightarrow> bool" where
  "is_space c = (c \<in> set [CHR 0x09, CHR 0x0A, CHR 0x0B, CHR 0x0C, CHR 0x0D, CHR 0x20, CHR 0xA0])"

definition trim :: "string \<Rightarrow> string" where
  "trim s = rev (dropWhile is_space (rev (dropWhile is_space s)))"

definition startsWith :: "string \<Rightarrow> string \<Rightarrow> bool" where
  "startsWith s p = (take (length p) s = p)"

fun includes_str :: "string \<Rightarrow> string \<Rightarrow> bool" where
  "includes_str [] p = (p = [])"
| "includes_str (c # cs) p = (startsWith (c # cs) p \<or> includes_str cs p)"

text \<open>\<open>s.replace(p, r)\<close> for a string pattern: the first occurrence only.\<close>

fun replace_first :: "string \<Rightarrow> string \<Rightarrow> string \<Rightarrow> string" where
  "replace_first [] p r = (if p = [] then r else [])"
| "replace_first (c # cs) p r =
     (if startsWith (c # cs) p then r @ drop (length p) (c # cs) else c # replace_first cs p r)"

text \<open>\<open>s.split(c)\<close> for a one-character separator: the empty text gives one empty
  piece.\<close>

fun split_char :: "char \<Rightarrow> string \<Rightarrow> string list" where
  "split_char sep [] = [Nil]"
| "split_char sep (c # cs) =
     (if c = sep then [] # split_char sep cs
      else (case split_char sep cs of [] \<Rightarrow> [c] # [] | l # ls \<Rightarrow> (c # l) # ls))"

text \<open>\<open>s.split(/\s+/)\<close>: the pieces between maximal runs of white space; a text
  that starts or ends with white space gives an empty first or last piece.\<close>

function split_ws :: "string \<Rightarrow> string list" where
  "split_ws [] = [Nil]"
| "split_ws (c # cs) =
     (if is_space c then [] # split_ws (dropWhile is_space cs)
      else (case split_ws cs of [] \<Rightarrow> [c] # [] | l # ls \<Rightarrow> (c # l) # ls))"
  by pat_completeness auto
termination
  by (relation "measure length") (auto simp: length_dropWhile_le less_Suc_eq_le)

subsection \<open>parseRAOFile\<close>

text \<open>
  \<open>Number\<close> and \<open>parseFloat\<close> are built into the language: the parser takes them as
  the parameters \<open>toNumber\<close> and \<open>parseFloat\<close>, any two functions from a text to a
  number that may be NaN. What is proved of the parser holds whatever they return.
\<close>

record scan_state =
  headingLineIdx :: int
  headings :: "jsnum list"
  dataStartIdx :: int

definition scan_line :: "(string \<Rightarrow> jsnum) \<Rightarrow> scan_state \<Rightarrow> nat \<times> string \<Rightarrow> scan_state" where
  "scan_line toNumber st il =
     (case il of (i, line) \<Rightarrow>
        let st1 = (if startsWith (trim line) ''#HEADING''
                   then st \<lparr> headingLineIdx := int i,
                             headings := map toNumber
                               (split_ws (trim (replace_first line ''#HEADING'' []))) \<rparr>
                   else st)
        in if includes_str line ''w(r/s)'' then st1 \<lparr> dataStartIdx := int i + 1 \<rparr> else st1)"

definition scan_lines :: "(string \<Rightarrow> jsnum) \<Rightarrow> string list \<Rightarrow> scan_state" where
  "scan_lines toNumber lines =
     foldl (scan_line toNumber)
       \<lparr> headingLineIdx = -1, headings = [], dataStartIdx = -1 \<rparr>
       (zip [0..<length lines] lines)"

text \<open>The callback of \<open>headings.reduce\<close>: a comparison with NaN is false and keeps
  \<open>prev\<close>.\<close>

definition nearer_num :: "real \<Rightarrow> jsnum \<Rightarrow> jsnum \<Rightarrow> jsnum" where
  "nearer_num target prev cur =
     (case cur of None \<Rightarrow> prev
      | Some c \<Rightarrow> (case prev of None \<Rightarrow> prev
          | Some p \<Rightarrow> if \<bar>c - target\<bar> < \<bar>p - target\<bar> then cur else prev))"

text \<open>\<open>headings.indexOf(v)\<close>: strict equality, so NaN is never found (-1).\<close>

definition indexOf :: "jsnum list \<Rightarrow> jsnum \<Rightarrow> int" where
  "indexOf xs v =
     (case v of None \<Rightarrow> -1
      | Some x \<Rightarrow> (case findIndex (\<lambda>h. h = Some x) xs of None \<Rightarrow> -1 | Some i \<Rightarrow> int i))"

text \<open>\<open>parseFloat(vals[i])\<close>: NaN for a column that is not there.\<close>

definition parseFloat_at :: "(string \<Rightarrow> jsnum) \<Rightarrow> string list \<Rightarrow> int \<Rightarrow> jsnum" where
  "parseFloat_at parseFloat vals i =
     (if i < 0 then None
      else case js_index vals (nat i) of None \<Rightarrow> None | Some v \<Rightarrow> parseFloat v)"

text \<open>What one line of the data part contributes: frequency, amplitude and phase of
  the chosen column, or nothing when the loop skips the line.\<close>

definition row_values ::
  "(string \<Rightarrow> jsnum) \<Rightarrow> nat \<Rightarrow> int \<Rightarrow> string \<Rightarrow> (real \<times> real \<times> real) option" where
  "row_values parseFloat nHeadings headingIdx rawLine =
     (let line = trim rawLine in
      if line = [] \<or> startsWith line ''#'' then None
      else
        let vals = split_ws line in
        if length vals < 1 + 2 * nHeadings then None
        else
          (case parseFloat_at parseFloat vals 0 of
             None \<Rightarrow> None
           | Some w \<Rightarrow>
               (case parseFloat_at parseFloat vals (1 + headingIdx) of
                  None \<Rightarrow> None
                | Some amp \<Rightarrow>
                    (case parseFloat_at parseFloat vals (1 + int nHeadings + headingIdx) of
                       None \<Rightarrow> None
                     | Some phase \<Rightarrow> Some (w, amp, phase)))))"

definition normalize_phase :: "real \<Rightarrow> real" where
  "normalize_phase phase = js_rem (phase + 180) 360 - 180"

record unwrap_state =
  prevPhase :: "real option"
  phaseOffset :: real
  periods_acc :: "real list"
  amplitudes_acc :: "real list"
  phases_acc :: "real list"

definition push_row :: "unwrap_state \<Rightarrow> real \<times> real \<times> real \<Rightarrow> unwrap_state" where
  "push_row st row =
     (case row of (freq, amp, phase0) \<Rightarrow>
        let phase = normalize_phase phase0;
            offset = (case prevPhase st of
                        None \<Rightarrow> phaseOffset st
                      | Some prev \<Rightarrow>
                          let diff = phase - prev in
                          if diff > 180 then phaseOffset st - 360
                          else if diff < -180 then phaseOffset st + 360
                          else phaseOffset st);
            unwrapped = phase + offset
        in \<lparr> prevPhase = Some (unwrapped - offset),
             phaseOffset = offset,
             periods_acc = periods_acc st @ [freq],
             amplitudes_acc = amplitudes_acc st @ [amp],
             phases_acc = phases_acc st @ [unwrapped] \<rparr>)"

definition data_rows ::
  "(string \<Rightarrow> jsnum) \<Rightarrow> nat \<Rightarrow> int \<Rightarrow> string list \<Rightarrow> (real \<times> real \<times> real) list" where
  "data_rows parseFloat nHeadings headingIdx ls =
     List.map_filter (row_values parseFloat nHeadings headingIdx) ls"

definition unwrap_rows :: "(real \<times> real \<times> real) list \<Rightarrow> unwrap_state" where
  "unwrap_rows rows =
     foldl push_row
       \<lparr> prevPhase = None, phaseOffset = 0, periods_acc = [], amplitudes_acc = [], phases_acc = [] \<rparr>
       rows"

record rao_data =
  periods :: "real list"
  amplitudes :: "real list"
  phases :: "real list"

text \<open>The outcome of a call: an exception, the value \<open>null\<close>, or the parsed table.\<close>

datatype rao_result = Throws | Null | Parsed rao_data

definition selected_column :: "jsnum list \<Rightarrow> real \<Rightarrow> int option" where
  "selected_column hs targetHeading =
     (case reduce (nearer_num targetHeading) hs of
        None \<Rightarrow> None
      | Some nearestHeading \<Rightarrow> Some (indexOf hs nearestHeading))"

text \<open>The accepted rows of a text, in the order of the file: the lines after the
  last \<open>w(r/s)\<close> line, read in the column of the heading nearest to the target.\<close>

definition accepted_rows ::
  "(string \<Rightarrow> jsnum) \<Rightarrow> (string \<Rightarrow> jsnum) \<Rightarrow> string \<Rightarrow> real \<Rightarrow> (real \<times> real \<times> real) list" where
  "accepted_rows toNumber parseFloat content targetHeading =
     (let lines = split_char CHR 0x0A content;
          st = scan_lines toNumber lines
      in case selected_column (headings st) targetHeading of
           None \<Rightarrow> []
         | Some headingIdx \<Rightarrow>
             data_rows parseFloat (length (headings st)) headingIdx
               (drop (nat (dataStartIdx st)) lines))"

definition parseRAOFile ::
  "(string \<Rightarrow> jsnum) \<Rightarrow> (string \<Rightarrow> jsnum) \<Rightarrow> string \<Rightarrow> real \<Rightarrow> rao_result" where
  "parseRAOFile toNumber parseFloat content targetHeading =
     (let lines = split_char CHR 0x0A content;
          st = scan_lines toNumber lines
      in if headingLineIdx st = -1 \<or> dataStartIdx st = -1 then Null
         else
           (case selected_column (headings st) targetHeading of
              None \<Rightarrow> Throws
            | Some headingIdx \<Rightarrow>
                let final = unwrap_rows
                      (data_rows parseFloat (length (headings st)) headingIdx
                         (drop (nat (dataStartIdx st)) lines));
                    indices = sort_key (\<lambda>i. periods_acc final ! i) [0..<length (periods_acc final)]
                in Parsed \<lparr> periods = map (\<lambda>i. periods_acc final ! i) indices,
                            amplitudes = map (\<lambda>i. amplitudes_acc final ! i) indices,
                            phases = map (\<lambda>i. phases_acc final ! i) indices \<rparr>))"

text \<open>A reader of plain decimal tokens (an optional minus sign, digits, an optional
  fraction), which \<open>Number\<close> and \<open>parseFloat\<close> read alike; NaN otherwise. It stands
  for both when a table of such tokens is run.\<close>

fun digits_value :: "string \<Rightarrow> nat \<Rightarrow> nat option" where
  "digits_value [] acc = Some acc"
| "digits_value (c # cs) acc =
     (if 48 \<le> (of_char c :: nat) \<and> (of_char c :: nat) \<le> 57
      then digits_value cs (10 * acc + (of_char c - 48))
      else None)"

definition unsigned_decimal :: "string \<Rightarrow> jsnum" where
  "unsigned_decimal s =
     (let ip = takeWhile (\<lambda>c. c \<noteq> CHR ''.'') s;
          rest = dropWhile (\<lambda>c. c \<noteq> CHR ''.'') s
      in if ip = [] then None
         else case digits_value ip 0 of
           None \<Rightarrow> None
         | Some n \<Rightarrow>
             (case rest of
                [] \<Rightarrow> Some (real n)
              | _ # fp \<Rightarrow>
                  if fp = [] then None
                  else (case digits_value fp 0 of
                          None \<Rightarrow> None
                        | Some m \<Rightarrow> Some (real n + real m / 10 ^ length fp))))"

definition read_decimal :: "string \<Rightarrow> jsnum" where
  "read_decimal s =
     (case s of
        [] \<Rightarrow> None
      | c # cs \<Rightarrow> if c = CHR ''-'' then map_option uminus (unsigned_decimal cs)
                  else unsigned_decimal s)"

subsection \<open>loadRAOFile\<close>








subsection \<open>updatePSDs\<close>

record wave_spectrum =
  frequencies :: "real list"
  spectralDensities :: "jsnum list"




section \<open>JonswapSpectrum\<close>

text \<open>
  The calibration can leave the finite numbers, so its values are numbers that may be
  \<open>None\<close>: NaN or an infinity. Finite values are computed exactly, with one exception
  that the loop depends on: \<open>Math.exp\<close> underflows. For \<open>x\<close> below about -745.14 the
  value \<open>e\<^sup>x\<close> is under half the least positive double and \<open>Math.exp\<close> returns 0; the
  model returns 0 at and below -746 and the exact value above, which from there to
  -745.14 is below the least positive double. Overflow and underflow of sums and
  products are not modelled. \<open>Math.pow(w, -5)\<close> is \<open>w powi (-5)\<close> and
  \<open>Math.pow(gamma, exp2)\<close> is \<open>gamma powr exp2\<close>, for \<open>gamma > 0\<close>: the only caller
  passes 3.3.

  A value that is not finite stays so through the loop. The one operation of the loop
  that makes a finite number of an infinity is the ratio \<open>targetHs / estimatedHs\<close>,
  which is 0 for an infinite estimate: that ratio fails the check as NaN does, and the
  update multiplies an infinite alpha by it, which is NaN. The model has \<open>None\<close> for
  that ratio.
\<close>

definition js_exp :: "real \<Rightarrow> real" where
  "js_exp x = (if x \<le> - 746 then 0 else exp x)"

text \<open>The loop \<open>for (let w = 0.01; w <= 6.0; w += 0.01) omega.push(w)\<close>.\<close>

function omega_from :: "real \<Rightarrow> real list" where
  "omega_from w = (if w \<le> 6 then w # omega_from (w + 0.01) else [])"
  by pat_completeness auto
termination
proof (relation "measure (\<lambda>w. nat \<lceil>(6 - w) * 100 + 1\<rceil>)")
  show "wf (measure (\<lambda>w. nat \<lceil>(6 - w) * 100 + 1\<rceil>))" by simp
next
  fix w :: real
  assume w: "w \<le> 6"
  define c where "c = \<lceil>(6 - w) * 100 + 1\<rceil>"
  have "(6 - (w + 1 / 10\<^sup>2)) * 100 + 1 = ((6 - w) * 100 + 1) - 1" by (simp add: algebra_simps)
  then have "\<lceil>(6 - (w + 1 / 10\<^sup>2)) * 100 + 1\<rceil> = \<lceil>((6 - w) * 100 + 1) - 1\<rceil>" by presburger
  also have "\<dots> = c - 1" unfolding c_def by (rule ceiling_diff_one)
  finally have n: "\<lceil>(6 - (w + 1 / 10\<^sup>2)) * 100 + 1\<rceil> = c - 1" .
  have "0 < (6 - w) * 100 + 1" using w by simp
  then have "0 < c" unfolding c_def by (simp only: zero_less_ceiling)
  then have "nat (c - 1) < nat c" by simp
  then show "(w + 1 / 10\<^sup>2, w) \<in> measure (\<lambda>w. nat \<lceil>(6 - w) * 100 + 1\<rceil>)"
    unfolding in_measure n c_def .
qed

declare omega_from.simps [simp del]

definition omega_grid :: "real list" where
  "omega_grid = omega_from 0.01"

text \<open>
  One value of the spectrum. For \<open>Tp = 0\<close> the peak frequency is infinite, \<open>exp2\<close> is
  the exponential of \<open>\<infinity> / \<infinity>\<close> and the value is NaN; for \<open>w = 0\<close> the factor
  \<open>Math.pow(w, -5)\<close> is infinite and \<open>exp1\<close> is 0, and the value is NaN again. Otherwise
  every factor but \<open>alpha\<close> is finite.
\<close>

definition spectrumAt :: "jsnum \<Rightarrow> real \<Rightarrow> real \<Rightarrow> real \<Rightarrow> real \<Rightarrow> jsnum" where
  "spectrumAt alpha Tp gamma g w =
     (if Tp = 0 \<or> w = 0 then None
      else
        let omega_p = 2 * pi / Tp;
            sigma = (if w \<le> omega_p then 0.07 else 0.09);
            exp1 = js_exp (- 1.25 * (omega_p / w) ^ 4);
            exp2 = js_exp (- ((w - omega_p) ^ 2) / (2 * (sigma * omega_p) ^ 2))
        in num_mul (num_mul (num_mul (num_mul alpha (Some (g ^ 2))) (Some (w powi (-5))))
                            (Some exp1))
                   (Some (gamma powr exp2)))"

definition computeSpectrumWithAlpha :: "real list \<Rightarrow> jsnum \<Rightarrow> real \<Rightarrow> real \<Rightarrow> real \<Rightarrow> jsnum list" where
  "computeSpectrumWithAlpha omega alpha Tp gamma g = map (spectrumAt alpha Tp gamma g) omega"

definition trapezoidalIntegration :: "real list \<Rightarrow> jsnum list \<Rightarrow> jsnum" where
  "trapezoidalIntegration x y =
     fold (\<lambda>i integral.
             let dx = x ! i - x ! (i - 1)
             in num_add integral
                  (num_mul (num_mul (Some 0.5) (num_add (num_at y (i - 1)) (num_at y i))) (Some dx)))
          [1..<length x] (Some 0)"

definition tolerance :: real where
  "tolerance = 1 / 1000"

definition maxIter :: nat where
  "maxIter = 50"

definition estimatedHs_of :: "real list \<Rightarrow> jsnum \<Rightarrow> real \<Rightarrow> real \<Rightarrow> real \<Rightarrow> jsnum" where
  "estimatedHs_of omega alpha Tp gamma g =
     (let spectrum = computeSpectrumWithAlpha omega alpha Tp gamma g;
          m0 = trapezoidalIntegration omega spectrum
      in num_mul (Some 4) (num_sqrt m0))"

text \<open>\<open>Math.abs(ratio - 1) < tolerance\<close>: false for a ratio that is not finite.\<close>

definition within_tolerance :: "jsnum \<Rightarrow> bool" where
  "within_tolerance ratio = (case ratio of None \<Rightarrow> False | Some r \<Rightarrow> \<bar>r - 1\<bar> < tolerance)"

text \<open>The loop of \<open>calculateAlphaIterative\<close>, with the number of iterations left.\<close>

fun alpha_loop :: "nat \<Rightarrow> real list \<Rightarrow> real \<Rightarrow> real \<Rightarrow> real \<Rightarrow> real \<Rightarrow> jsnum \<Rightarrow> jsnum" where
  "alpha_loop 0 omega targetHs Tp gamma g alpha = alpha"
| "alpha_loop (Suc n) omega targetHs Tp gamma g alpha =
     (let estimatedHs = estimatedHs_of omega alpha Tp gamma g;
          ratio = num_div (Some targetHs) estimatedHs
      in if within_tolerance ratio then alpha
         else alpha_loop n omega targetHs Tp gamma g (num_mul alpha ratio))"

definition calculateAlphaIterative :: "real list \<Rightarrow> real \<Rightarrow> real \<Rightarrow> real \<Rightarrow> real \<Rightarrow> jsnum" where
  "calculateAlphaIterative omega targetHs Tp gamma g =
     alpha_loop maxIter omega targetHs Tp gamma g (Some 0.0081)"

definition calculateSpectrum :: "real \<Rightarrow> real \<Rightarrow> (real \<times> jsnum) list" where
  "calculateSpectrum Hs Tp =
     (let g = 9.81;
          gamma = 3.3;
          omega = omega_grid;
          alpha = calculateAlphaIterative omega Hs Tp gamma g
      in map (\<lambda>w. (w, spectrumAt alpha Tp gamma g w)) omega)"

text \<open>The zeroth moment of the spectrum that \<open>calculateSpectrum\<close> returns, by the
  trapezoidal rule over its own frequencies.\<close>

definition spectrum_m0 :: "(real \<times> jsnum) list \<Rightarrow> jsnum" where
  "spectrum_m0 spectrum = trapezoidalIntegration (map fst spectrum) (map snd spectrum)"

text \<open>The ratio that an iteration computes from its alpha, the alpha it hands to the
  next iteration, and the alpha after \<open>k\<close> updates from the initial guess.\<close>

definition ratio_of :: "real list \<Rightarrow> real \<Rightarrow> real \<Rightarrow> real \<Rightarrow> real \<Rightarrow> jsnum \<Rightarrow> jsnum" where
  "ratio_of omega targetHs Tp gamma g alpha =
     num_div (Some targetHs) (estimatedHs_of omega alpha Tp gamma g)"

definition next_alpha :: "real list \<Rightarrow> real \<Rightarrow> real \<Rightarrow> real \<Rightarrow> real \<Rightarrow> jsnum \<Rightarrow> jsnum" where
  "next_alpha omega targetHs Tp gamma g alpha =
     num_mul alpha (ratio_of omega targetHs Tp gamma g alpha)"

definition alpha_after :: "real list \<Rightarrow> real \<Rightarrow> real \<Rightarrow> real \<Rightarrow> real \<Rightarrow> nat \<Rightarrow> jsnum" where
  "alpha_after omega targetHs Tp gamma g k =
     (next_alpha omega targetHs Tp gamma g ^^ k) (Some 0.0081)"

text \<open>The spectrum for \<open>alpha = 1\<close> as a real number, and its zeroth moment: the
  spectrum and the moment are linear in \<open>alpha\<close>.\<close>

definition unit_spectrum :: "real \<Rightarrow> real \<Rightarrow> real \<Rightarrow> real \<Rightarrow> real" where
  "unit_spectrum Tp gamma g w =
     (let omega_p = 2 * pi / Tp;
          sigma = (if w \<le> omega_p then 0.07 else 0.09);
          exp1 = js_exp (- 1.25 * (omega_p / w) ^ 4);
          exp2 = js_exp (- ((w - omega_p) ^ 2) / (2 * (sigma * omega_p) ^ 2))
      in g ^ 2 * (w powi (-5)) * exp1 * (gamma powr exp2))"

definition unit_m0 :: "real \<Rightarrow> real \<Rightarrow> real \<Rightarrow> real" where
  "unit_m0 Tp gamma g = trapezoidal_integral omega_grid (map (unit_spectrum Tp gamma g) omega_grid)"

text \<open>An input at the edge of the tolerance: the target height that is 0.9990005 times
  the first estimate of the loop for \<open>Tp = 10\<close>.\<close>

definition Hs_near_tolerance :: real where
  "Hs_near_tolerance =
     (case estimatedHs_of omega_grid (Some 0.0081) 10 3.3 9.81 of
        None \<Rightarrow> 0
      | Some estimatedHs \<Rightarrow> 0.9990005 * estimatedHs)"

text \<open>An input that takes one update: the target height that is 1.0015 times the
  first estimate of the loop for \<open>Tp = 10\<close>.\<close>

definition Hs_one_update :: real where
  "Hs_one_update =
     (case estimatedHs_of omega_grid (Some 0.0081) 10 3.3 9.81 of
        None \<Rightarrow> 0
      | Some estimatedHs \<Rightarrow> 1.0015 * estimatedHs)"

text \<open>The ratios of the target to the first estimate from which 50 checks reach the
  tolerance: each update takes the ratio to its square root.\<close>

definition ratio_lower :: real where
  "ratio_lower = (999 / 1000) ^ (2 ^ 49)"

definition ratio_upper :: real where
  "ratio_upper = (1001 / 1000) ^ (2 ^ 49)"

text \<open>The bound the specification puts on an unwrapped phase sequence: no step
  between neighbours above 180 degrees plus \<open>eps\<close>.\<close>

definition phase_steps_within :: "real \<Rightarrow> real list \<Rightarrow> bool" where
  "phase_steps_within eps ps = successively (\<lambda>a b. \<bar>b - a\<bar> \<le> 180 + eps) ps"

text \<open>The invariant of the unwrapping loop: the steps so far are within 180 degrees,
  and the last stored phase is the previous normalized phase plus the offset.\<close>

definition unwrap_inv :: "unwrap_state \<Rightarrow> bool" where
  "unwrap_inv st \<longleftrightarrow>
     phase_steps_within 0 (phases_acc st) \<and>
     length (phases_acc st) = length (periods_acc st) \<and>
     (case prevPhase st of
        None \<Rightarrow> phases_acc st = []
      | Some prev \<Rightarrow> phases_acc st \<noteq> [] \<and> last (phases_acc st) = prev + phaseOffset st \<and>
                     -180 \<le> prev \<and> prev < 180)"



section \<open>Verification\<close>

subsection \<open>Remainder and heading resolution\<close>

lemma js_rem_nonneg:
  assumes "0 \<le> a" and "0 < b"
  shows "0 \<le> js_rem a b \<and> js_rem a b < b"
proof -
  have q: "0 \<le> a / b" using assms by simp
  have e: "js_rem a b = a - b * of_int \<lfloor>a / b\<rfloor>"
    using q by (simp add: js_rem_def js_trunc_def)
  have "b * of_int \<lfloor>a / b\<rfloor> \<le> b * (a / b)"
    using assms by (intro mult_left_mono) auto
  moreover have "b * (a / b) < b * (of_int \<lfloor>a / b\<rfloor> + 1)"
    using assms by (intro mult_strict_left_mono) linarith+
  moreover have "b * (a / b) = a" using assms by simp
  ultimately show ?thesis unfolding e using assms by (simp add: algebra_simps)
qed

lemma js_rem_neg:
  assumes "a < 0" and "0 < b"
  shows "js_rem a b = - js_rem (- a) b"
proof -
  have "a / b < 0" using assms by (simp add: divide_neg_pos)
  then show ?thesis using assms
    by (simp add: js_rem_def js_trunc_def algebra_simps)
qed

lemma js_rem_bounds:
  assumes "0 < b"
  shows "- b < js_rem a b \<and> js_rem a b < b"
proof (cases "0 \<le> a")
  case True
  then show ?thesis using js_rem_nonneg [of a b] assms by linarith
next
  case False
  then have "a < 0" by simp
  then show ?thesis using js_rem_neg [of a b] js_rem_nonneg [of "- a" b] assms by linarith
qed

lemma unwrapHeading_range: "0 \<le> unwrapHeading h \<and> unwrapHeading h \<le> 180"
proof -
  have "0 \<le> js_rem h 360 + 360" using js_rem_bounds [of 360 h] by linarith
  then have "0 \<le> js_rem (js_rem h 360 + 360) 360 \<and> js_rem (js_rem h 360 + 360) 360 < 360"
    using js_rem_nonneg by simp
  then show ?thesis by (auto simp: unwrapHeading_def Let_def)
qed

lemma unwrapHeading_reflects:
  "\<exists>m. 0 \<le> m \<and> m < 360 \<and> (\<exists>k :: int. h = m + 360 * of_int k) \<and>
       unwrapHeading h = (if m > 180 then 360 - m else m)"
proof -
  define m where "m = js_rem (js_rem h 360 + 360) 360"
  have "0 \<le> js_rem h 360 + 360" using js_rem_bounds [of 360 h] by linarith
  then have b: "0 \<le> m" "m < 360" unfolding m_def using js_rem_nonneg by simp_all
  have "h = m + 360 * of_int (js_trunc (h / 360) - 1 + js_trunc ((js_rem h 360 + 360) / 360))"
    unfolding m_def by (simp add: js_rem_def algebra_simps)
  then have k: "\<exists>k :: int. h = m + 360 * of_int k" by blast
  have "unwrapHeading h = (if m > 180 then 360 - m else m)"
    using b unfolding unwrapHeading_def m_def [symmetric] by (simp add: Let_def)
  with b k show ?thesis by blast
qed

lemma foldl_nearer:
  "foldl (nearer t) x xs \<in> set (x # xs) \<and>
   (\<forall>c \<in> set (x # xs). \<bar>foldl (nearer t) x xs - t\<bar> \<le> \<bar>c - t\<bar>)"
proof (induction xs arbitrary: x)
  case Nil
  show ?case by simp
next
  case (Cons y ys)
  show ?case using Cons.IH [of "nearer t x y"]
    by (auto simp: nearer_def split: if_splits)
qed

lemma reduce_nearer:
  assumes "reduce (nearer t) xs = Some r"
  shows "r \<in> set xs \<and> (\<forall>c \<in> set xs. \<bar>r - t\<bar> \<le> \<bar>c - t\<bar>)"
proof (cases xs)
  case Nil
  with assms show ?thesis by simp
next
  case (Cons y ys)
  with assms have "r = foldl (nearer t) y ys" by simp
  then show ?thesis using foldl_nearer [of t y ys] Cons by simp
qed

lemmas heading_defs = findNearestHeading_def unwrapHeading_def js_rem_def js_trunc_def
  availableHeadings_def nearer_def Let_def

text \<open>
  Claim C7. Heading resolution folds every heading into [0, 180], by reducing it to
  \<open>m\<close> in [0, 360) and reflecting \<open>m > 180\<close> to \<open>360 - m\<close>, and picks a nearest of the
  seven available headings: the result is one of them and none of them is nearer to
  the folded heading. The headings 10 and 350 both resolve to 0; the heading
  200 folds to 160 and resolves to 150.
\<close>

theorem heading_resolution:
  "0 \<le> unwrapHeading h \<and> unwrapHeading h \<le> 180 \<and>
   (\<exists>m. 0 \<le> m \<and> m < 360 \<and> (\<exists>k :: int. h = m + 360 * of_int k) \<and>
        unwrapHeading h = (if m > 180 then 360 - m else m)) \<and>
   (\<exists>r. findNearestHeading h = Some r \<and> r \<in> set availableHeadings \<and>
        (\<forall>c \<in> set availableHeadings. \<bar>r - unwrapHeading h\<bar> \<le> \<bar>c - unwrapHeading h\<bar>)) \<and>
   findNearestHeading 10 = Some 0 \<and> findNearestHeading 350 = Some 0 \<and>
   unwrapHeading 200 = 160 \<and> findNearestHeading 200 = Some 150"
proof -
  obtain r where r: "findNearestHeading h = Some r"
    by (simp add: findNearestHeading_def availableHeadings_def)
  have n: "r \<in> set availableHeadings \<and>
      (\<forall>c \<in> set availableHeadings. \<bar>r - unwrapHeading h\<bar> \<le> \<bar>c - unwrapHeading h\<bar>)"
    using reduce_nearer r unfolding findNearestHeading_def by blast
  have e1: "findNearestHeading 10 = Some 0" by (simp add: heading_defs)
  have e2: "findNearestHeading 350 = Some 0" by (simp add: heading_defs)
  have e3: "unwrapHeading 200 = 160" by (simp add: heading_defs)
  have e4: "findNearestHeading 200 = Some 150" by (simp add: heading_defs)
  show ?thesis using unwrapHeading_range [of h] unwrapHeading_reflects [of h] r n e1 e2 e3 e4
    by blast
qed

theorem heading_resolution_witness:
  "unwrapHeading (-200) = 160 \<and> findNearestHeading (-200) = Some 150 \<and>
   150 \<in> set availableHeadings \<and> \<bar>150 - unwrapHeading (-200)\<bar> \<le> \<bar>(180::real) - unwrapHeading (-200)\<bar>"
proof -
  have u: "unwrapHeading (-200) = 160" by (simp add: heading_defs)
  have f: "findNearestHeading (-200) = Some 150" by (simp add: heading_defs)
  have m: "(180::real) \<in> set availableHeadings" by (simp add: availableHeadings_def)
  from heading_resolution [of "-200"] f m
  have "150 \<in> set availableHeadings \<and> \<bar>150 - unwrapHeading (-200)\<bar> \<le> \<bar>(180::real) - unwrapHeading (-200)\<bar>"
    by auto
  with u f show ?thesis by simp
qed

subsection \<open>MSDV\<close>

lemma num_at_Some: "i < length ys \<Longrightarrow> num_at (map Some ys) i = Some (ys ! i)"
  by (simp add: num_at_def js_index_def)

lemma imap_length: "length (imap f xs) = length xs"
  by (simp add: imap_def)

lemma imap_nth: "i < length xs \<Longrightarrow> imap f xs ! i = f (xs ! i) i"
  by (simp add: imap_def)

lemma msdv_fold:
  assumes "b \<le> length ys"
  shows "fold (\<lambda>i integral.
             let dw = fs ! i - fs ! (i - 1);
                 avgPSD = num_div (num_add (num_at (map Some ys) i) (num_at (map Some ys) (i - 1))) (Some 2)
             in num_add integral (num_mul avgPSD (Some dw)))
          [1..<b] (Some acc)
        = Some (acc + (\<Sum>i = 1..<b. (ys ! i + ys ! (i - 1)) / 2 * (fs ! i - fs ! (i - 1))))"
  using assms
proof (induction b)
  case 0
  show ?case by simp
next
  case (Suc b)
  show ?case
  proof (cases "1 \<le> b")
    case False
    then show ?thesis by simp
  next
    case True
    have lt: "b < length ys" "b - 1 < length ys" using Suc.prems by auto
    have ih: "fold (\<lambda>i integral.
             let dw = fs ! i - fs ! (i - 1);
                 avgPSD = num_div (num_add (num_at (map Some ys) i) (num_at (map Some ys) (i - 1))) (Some 2)
             in num_add integral (num_mul avgPSD (Some dw)))
          [1..<b] (Some acc)
        = Some (acc + (\<Sum>i = 1..<b. (ys ! i + ys ! (i - 1)) / 2 * (fs ! i - fs ! (i - 1))))"
      using Suc.IH Suc.prems by simp
    have u: "[1..<Suc b] = [1..<b] @ [b]" using True by simp
    show ?thesis
      unfolding u fold_append comp_def ih
      using True lt
      by (simp add: num_at_Some num_add_def num_div_def num_mul_def Let_def)
  qed
qed

lemma msdvIntegral_aligned:
  assumes "length ys = length fs"
  shows "msdvIntegral (map Some ys) fs = Some (trapezoidal_integral fs ys)"
  using msdv_fold [of "length fs" ys fs 0] assms
  by (simp add: msdvIntegral_def trapezoidal_integral_def)

text \<open>
  Claim C2, as amended. For a position whose series is aligned with the grid and holds
  finite values, the dose is the square root of the trapezoidal integral when the
  integral is not negative, and NaN when it is negative: there is no clamp. The
  exposure time \<open>T_exp\<close> of the object does not enter the result.
\<close>

theorem msdv_is_sqrt_of_integral:
  assumes "verticalPSDs position = Some (map Some ys)"
    and "length ys = length grid"
  shows "calculateMSDV this verticalPSDs grid position =
           Some (if trapezoidal_integral grid ys < 0 then None
                 else Some (sqrt (trapezoidal_integral grid ys)))"
  using assms by (simp add: calculateMSDV_def msdvIntegral_aligned num_sqrt_def)

lemmas msdv_eval = calculateMSDV_def msdvIntegral_def num_sqrt_def num_add_def num_div_def
  num_mul_def num_at_def js_index_def Let_def

text \<open>
  The claim C2 as stated fails: for the series \<open>[-1, -1]\<close> over the grid \<open>[0, 1]\<close> the
  integral is -1, the dose the claim gives is \<open>sqrt (max (-1) 0) = 0\<close>, and the code
  returns NaN.
\<close>

theorem msdv_negative_integral_is_nan:
  "calculateMSDV \<lparr> freqRAO = [0, 1], shipPositions = [0], displayPositions = [0], T_exp = 1800 \<rparr>
     [(0::real) \<mapsto> [Some (-1), Some (-1)]] [0, 1] 0 = Some None \<and>
   trapezoidal_integral [0, 1] [-1, -1] = -1 \<and>
   sqrt (max (trapezoidal_integral [0, 1] [-1, -1]) 0) = 0"
  by (simp add: msdv_eval trapezoidal_integral_def)

theorem msdv_is_sqrt_of_integral_witness:
  "calculateMSDV \<lparr> freqRAO = [0, 1], shipPositions = [0], displayPositions = [0], T_exp = 1800 \<rparr>
     [(0::real) \<mapsto> map Some [4, 4]] [0, 1] 0 = Some (Some 2)"
proof -
  have t: "trapezoidal_integral [0, 1] [4, 4] = 4" by (simp add: trapezoidal_integral_def)
  have "[(0::real) \<mapsto> map Some [4, 4 :: real]] 0 = Some (map Some [4, 4])" by simp
  moreover have "length [4, 4 :: real] = length [0, 1 :: real]" by simp
  ultimately show ?thesis
    using msdv_is_sqrt_of_integral [of "[(0::real) \<mapsto> map Some [4, 4]]" 0 "[4, 4]" "[0, 1]"
        "\<lparr> freqRAO = [0, 1], shipPositions = [0], displayPositions = [0], T_exp = 1800 \<rparr>"] t
    by simp
qed

text \<open>
  Claim C9. On a frequency grid of length 0 or 1 every position of the input gets the
  dose 0, a finite number, whatever its series holds.
\<close>

theorem msdv_short_grid_is_zero:
  assumes "length grid < 2"
  shows "dom (calculateMSDV this verticalPSDs grid) = dom verticalPSDs \<and>
         (\<forall>position \<in> dom verticalPSDs.
            calculateMSDV this verticalPSDs grid position = Some (Some 0))"
proof -
  have e: "[1..<length grid] = []" using assms by simp
  have i: "msdvIntegral S grid = Some 0" for S
    unfolding msdvIntegral_def e by simp
  show ?thesis
    by (auto simp: calculateMSDV_def i num_sqrt_def dom_def split: option.splits)
qed

theorem msdv_short_grid_is_zero_witness:
  "calculateMSDV \<lparr> freqRAO = [1], shipPositions = [0], displayPositions = [0], T_exp = 1800 \<rparr>
     [(0::real) \<mapsto> [Some 5]] [1] 0 = Some (Some 0)"
proof -
  have "length [1::real] < 2" by simp
  from msdv_short_grid_is_zero [OF this, of
      "\<lparr> freqRAO = [1], shipPositions = [0], displayPositions = [0], T_exp = 1800 \<rparr>"
      "[(0::real) \<mapsto> [Some 5]]"]
  show ?thesis by simp
qed

subsection \<open>Acceleration PSDs and the Wf weighting\<close>

text \<open>
  Claim C3. At every index of the frequency grid, the heave acceleration PSD is the
  heave displacement PSD times \<open>(2\<pi> f)\<^sup>4\<close>, that is \<open>(2\<pi>)\<^sup>4\<close> times the scaling \<open>f\<^sup>4\<close>
  that the pitch and cross PSDs get.
\<close>

theorem acceleration_scaling:
  assumes "i < length freqs"
  shows "(i < length (heavePSD_unw d) \<longrightarrow>
            accHeavePSD (convertToAccelerationPSDs freqs d) ! i
              = num_mul (heavePSD_unw d ! i) (Some ((2 * pi * freqs ! i) ^ 4)) \<and>
            accHeavePSD (convertToAccelerationPSDs freqs d) ! i
              = num_mul (Some ((2 * pi) ^ 4)) (num_mul (heavePSD_unw d ! i) (Some ((freqs ! i) ^ 4)))) \<and>
         (i < length (pitchPSD_unw d) \<longrightarrow>
            accPitchPSD (convertToAccelerationPSDs freqs d) ! i
              = num_mul (pitchPSD_unw d ! i) (Some ((freqs ! i) ^ 4))) \<and>
         (i < length (crossPSD_unw d) \<longrightarrow>
            accCrossPSD (convertToAccelerationPSDs freqs d) ! i
              = num_mul (crossPSD_unw d ! i) (Some ((freqs ! i) ^ 4)))"
proof -
  have p: "(2 * pi * freqs ! i) ^ 4 = (2 * pi) ^ 4 * (freqs ! i) ^ 4"
    by (simp add: power_mult_distrib)
  have h: "num_mul v (Some ((2 * pi * freqs ! i) ^ 4))
        = num_mul (Some ((2 * pi) ^ 4)) (num_mul v (Some ((freqs ! i) ^ 4)))" for v
    unfolding p by (cases v) (simp_all add: num_mul_def)
  show ?thesis
    using assms h
    by (simp add: convertToAccelerationPSDs_def imap_nth js_index_def)
qed

theorem acceleration_scaling_witness:
  "accHeavePSD (convertToAccelerationPSDs [2]
      \<lparr> heavePSD_unw = [Some 3], pitchPSD_unw = [Some 5], crossPSD_unw = [Some 7] \<rparr>) ! 0
     = Some ((2 * pi) ^ 4 * (3 * 2 ^ 4)) \<and>
   accPitchPSD (convertToAccelerationPSDs [2]
      \<lparr> heavePSD_unw = [Some 3], pitchPSD_unw = [Some 5], crossPSD_unw = [Some 7] \<rparr>) ! 0
     = Some (5 * 2 ^ 4) \<and>
   accCrossPSD (convertToAccelerationPSDs [2]
      \<lparr> heavePSD_unw = [Some 3], pitchPSD_unw = [Some 5], crossPSD_unw = [Some 7] \<rparr>) ! 0
     = Some (7 * 2 ^ 4)"
proof -
  have "(0::nat) < length [2::real]" by simp
  from acceleration_scaling [OF this,
      of "\<lparr> heavePSD_unw = [Some 3], pitchPSD_unw = [Some 5], crossPSD_unw = [Some 7] \<rparr>"]
  show ?thesis by (simp add: num_mul_def)
qed

lemma quadratic_parts:
  "real_part (quadratic (s_of w) z k) = k ^ 2 - w * w \<and>
   imag_part (quadratic (s_of w) z k) = 2 * z * k * w"
  by (simp add: quadratic_def s_of_def complexAdd_def complexMultiply_def)

lemma quadratic_denominator:
  assumes "z \<noteq> 0" and "k \<noteq> 0"
  shows "denominator (quadratic (s_of w) z k) \<noteq> 0"
proof
  assume d: "denominator (quadratic (s_of w) z k) = 0"
  have "(k ^ 2 - w * w) * (k ^ 2 - w * w) + (2 * z * k * w) * (2 * z * k * w) = 0"
    using d by (simp add: denominator_def quadratic_parts)
  then have "k ^ 2 - w * w = 0 \<and> 2 * z * k * w = 0"
    by (rule sum_squares_eq_zero_iff [THEN iffD1])
  then have a: "k ^ 2 - w * w = 0" and b: "2 * z * k * w = 0"
    by blast+
  from b assms have "w = 0" by simp
  with a assms show False by simp
qed

lemma pi2_pos: "0 < pi2" by (simp add: pi2_def)

lemma omega_nonzero:
  "omega1 \<noteq> 0" "omega2 \<noteq> 0" "omega4 \<noteq> 0" "omega6 \<noteq> 0"
  using pi2_pos by (simp_all add: omega1_def omega2_def omega4_def omega6_def)

lemma zeta_nonzero:
  "zeta1 \<noteq> 0" "zeta2 \<noteq> 0" "zeta4 \<noteq> 0" "zeta6 \<noteq> 0"
  by (simp_all add: zeta1_def zeta2_def zeta4_def zeta6_def)

lemma stage_denominators:
  "denominator (Hh_denominator w) \<noteq> 0" "denominator (Hl_denominator w) \<noteq> 0"
  "denominator (Ht_denominator w) \<noteq> 0" "denominator (Hs_denominator w) \<noteq> 0"
  unfolding Hh_denominator_def Hl_denominator_def Ht_denominator_def Hs_denominator_def
  by (simp_all add: quadratic_denominator omega_nonzero zeta_nonzero)

text \<open>
  Claim C10. For every real \<open>w\<close>, zero included, the four denominators of the Wf
  cascade at \<open>s = iw\<close> have a nonzero squared magnitude, every one of the four
  divisions gives a value, and so does the weighting; \<open>applyWfWeighting\<close> returns
  one value for each frequency.
\<close>

theorem wf_weighting_total:
  "denominator (Hh_denominator w) \<noteq> 0 \<and> denominator (Hl_denominator w) \<noteq> 0 \<and>
   denominator (Ht_denominator w) \<noteq> 0 \<and> denominator (Hs_denominator w) \<noteq> 0 \<and>
   (\<exists>hh hl ht hs. Wf_Hh w = Some hh \<and> Wf_Hl w = Some hl \<and> Wf_Ht w = Some ht \<and> Wf_Hs w = Some hs \<and>
      Wf_gain w = Some ((complexAbs (complexMultiply (complexMultiply hh hl) (complexMultiply ht hs))) ^ 2)) \<and>
   length (applyWfWeighting omega PSD) = length omega"
proof -
  obtain hh where hh: "Wf_Hh w = Some hh"
    by (simp add: Wf_Hh_def complexDivide_def stage_denominators)
  obtain hl where hl: "Wf_Hl w = Some hl"
    by (simp add: Wf_Hl_def complexDivide_def stage_denominators)
  obtain ht where ht: "Wf_Ht w = Some ht"
    by (simp add: Wf_Ht_def complexDivide_def stage_denominators)
  obtain hs where hs: "Wf_Hs w = Some hs"
    by (simp add: Wf_Hs_def complexDivide_def stage_denominators)
  have g: "Wf_gain w = Some ((complexAbs (complexMultiply (complexMultiply hh hl) (complexMultiply ht hs))) ^ 2)"
    by (simp add: Wf_gain_def hh hl ht hs)
  have l: "length (applyWfWeighting omega PSD) = length omega"
    by (simp add: applyWfWeighting_def imap_length)
  show ?thesis using stage_denominators [of w] hh hl ht hs g l by blast
qed

subsection \<open>Interpolation\<close>

lemma findIndex_None: "findIndex p xs = None \<longleftrightarrow> (\<forall>x \<in> set xs. \<not> p x)"
  by (induction xs) auto

lemma findIndex_Some:
  "findIndex p xs = Some k \<longleftrightarrow> k < length xs \<and> p (xs ! k) \<and> (\<forall>j < k. \<not> p (xs ! j))"
proof (induction xs arbitrary: k)
  case Nil
  show ?case by simp
next
  case (Cons x xs)
  show ?case
  proof (cases "p x")
    case True
    then show ?thesis by (cases k) auto
  next
    case False
    show ?thesis
    proof (cases k)
      case 0
      with False show ?thesis by simp
    next
      case (Suc m)
      have "(\<forall>j < Suc m. \<not> p ((x # xs) ! j)) \<longleftrightarrow> (\<forall>j < m. \<not> p (xs ! j))"
        using False by (auto simp: less_Suc_eq_0_disj)
      with False Suc Cons.IH [of m] show ?thesis by auto
    qed
  qed
qed

lemma findIndex_None_nth:
  assumes "\<And>j. j < length xs \<Longrightarrow> \<not> p (xs ! j)"
  shows "findIndex p xs = None"
  using assms by (auto simp: findIndex_None in_set_conv_nth)

lemma sorted_wrt_nth_less:
  "sorted_wrt (<) (xs :: real list) \<Longrightarrow> i < j \<Longrightarrow> j < length xs \<Longrightarrow> xs ! i < xs ! j"
  by (simp add: sorted_wrt_iff_nth_less)

lemma findIndex_at_knot:
  assumes "sorted_wrt (<) (xs :: real list)" and "i < length xs"
  shows "findIndex (\<lambda>f. f \<ge> xs ! i) xs = Some i"
proof -
  have "\<forall>j < i. \<not> xs ! j \<ge> xs ! i"
    using sorted_wrt_nth_less [OF assms(1) _ assms(2)] by (auto simp: not_le)
  then show ?thesis using assms(2) by (simp add: findIndex_Some)
qed

lemma findIndex_between:
  assumes "sorted_wrt (<) (xs :: real list)" and "Suc i < length xs"
    and "xs ! i < q" and "q \<le> xs ! Suc i"
  shows "findIndex (\<lambda>f. f \<ge> q) xs = Some (Suc i)"
proof -
  have "\<not> xs ! j \<ge> q" if "j < Suc i" for j
  proof (cases "j = i")
    case True
    with assms(3) show ?thesis by simp
  next
    case False
    with that have "j < i" by simp
    then have "xs ! j < xs ! i" using sorted_wrt_nth_less [OF assms(1)] assms(2) by simp
    with assms(3) show ?thesis by simp
  qed
  then show ?thesis using assms(2,4) by (simp add: findIndex_Some)
qed

lemma interpolateAt_knot:
  assumes s: "sorted_wrt (<) xs" and l: "length ys = length xs" and i: "i < length xs"
  shows "interpolateAt xs (map Some ys) (xs ! i) = Some (ys ! i)"
proof (cases i)
  case 0
  then show ?thesis
    using findIndex_at_knot [OF s i] l i by (simp add: interpolateAt_def num_at_Some)
next
  case (Suc m)
  have d: "xs ! m < xs ! Suc m" using sorted_wrt_nth_less [OF s, of m "Suc m"] i Suc by simp
  then have nz: "xs ! Suc m - xs ! m \<noteq> 0" by simp
  have "ys ! m + (xs ! Suc m - xs ! m) * (ys ! Suc m - ys ! m) / (xs ! Suc m - xs ! m) = ys ! Suc m"
    using nz by simp
  then show ?thesis
    using findIndex_at_knot [OF s i] l i Suc nz
    by (simp add: interpolateAt_def num_at_Some Let_def num_add_def num_sub_def num_mul_def num_div_def)
qed

lemma interpolateAt_inside:
  assumes s: "sorted_wrt (<) xs" and l: "length ys = length xs" and i: "Suc i < length xs"
    and lo: "xs ! i < q" and hi: "q < xs ! Suc i"
  shows "interpolateAt xs (map Some ys) q
           = Some (ys ! i + (q - xs ! i) * (ys ! Suc i - ys ! i) / (xs ! Suc i - xs ! i))"
proof -
  have f: "findIndex (\<lambda>f. f \<ge> q) xs = Some (Suc i)"
    using findIndex_between [OF s i lo] hi by simp
  have nz: "xs ! Suc i - xs ! i \<noteq> 0" using lo hi by simp
  show ?thesis
    using f l i nz
    by (simp add: interpolateAt_def num_at_Some Let_def num_add_def num_sub_def num_mul_def num_div_def)
qed

lemma interpolateAt_below:
  assumes s: "sorted_wrt (<) xs" and l: "length ys = length xs" and n: "xs \<noteq> []"
    and q: "q < xs ! 0"
  shows "interpolateAt xs (map Some ys) q = Some (ys ! 0)"
proof -
  have "findIndex (\<lambda>f. f \<ge> q) xs = Some 0" using n q by (simp add: findIndex_Some)
  then show ?thesis using l n by (simp add: interpolateAt_def num_at_Some)
qed

lemma interpolateAt_above:
  assumes s: "sorted_wrt (<) xs" and l: "length ys = length xs" and n: "xs \<noteq> []"
    and q: "xs ! (length xs - 1) < q"
  shows "interpolateAt xs (map Some ys) q = Some (ys ! (length ys - 1))"
proof -
  have le: "xs ! j \<le> xs ! (length xs - 1)" if "j < length xs" for j
  proof (cases "j = length xs - 1")
    case True
    then show ?thesis by simp
  next
    case False
    with that have "j < length xs - 1" by linarith
    moreover have "length xs - 1 < length xs" using n by simp
    ultimately have "xs ! j < xs ! (length xs - 1)" by (rule sorted_wrt_nth_less [OF s])
    then show ?thesis by simp
  qed
  have "\<not> xs ! j \<ge> q" if "j < length xs" for j
    using le [OF that] q by simp
  then have f: "findIndex (\<lambda>f. f \<ge> q) xs = None" by (rule findIndex_None_nth)
  have y: "ys \<noteq> []" using l n by auto
  then have i: "length ys - 1 < length ys" by simp
  have "interpolateAt xs (map Some ys) q = num_at (map Some ys) (length ys - 1)"
    unfolding interpolateAt_def f using y by simp
  then show ?thesis unfolding num_at_Some [OF i] .
qed

text \<open>
  Claim C8. Over strictly increasing knots with aligned values, a query at a knot
  returns the value of the knot, a query strictly between two neighbouring knots the
  linear interpolant of the two, a query below the first knot the first value and a
  query above the last knot the last value.
\<close>

theorem interpolation_piecewise_linear:
  assumes "sorted_wrt (<) xs" and "length ys = length xs" and "j < length qs"
  shows "(\<forall>i. i < length xs \<and> qs ! j = xs ! i \<longrightarrow>
            interpolateWaveSpectrum xs (map Some ys) qs ! j = Some (ys ! i)) \<and>
         (\<forall>i. Suc i < length xs \<and> xs ! i < qs ! j \<and> qs ! j < xs ! Suc i \<longrightarrow>
            interpolateWaveSpectrum xs (map Some ys) qs ! j
              = Some (ys ! i + (qs ! j - xs ! i) * (ys ! Suc i - ys ! i) / (xs ! Suc i - xs ! i))) \<and>
         (xs \<noteq> [] \<and> qs ! j < xs ! 0 \<longrightarrow>
            interpolateWaveSpectrum xs (map Some ys) qs ! j = Some (ys ! 0)) \<and>
         (xs \<noteq> [] \<and> xs ! (length xs - 1) < qs ! j \<longrightarrow>
            interpolateWaveSpectrum xs (map Some ys) qs ! j = Some (ys ! (length ys - 1)))"
proof -
  have e: "interpolateWaveSpectrum xs (map Some ys) qs ! j = interpolateAt xs (map Some ys) (qs ! j)"
    using assms(3) by (simp add: interpolateWaveSpectrum_def)
  have k: "\<forall>i. i < length xs \<and> qs ! j = xs ! i \<longrightarrow>
            interpolateAt xs (map Some ys) (qs ! j) = Some (ys ! i)"
    using interpolateAt_knot [OF assms(1,2)] by auto
  have m: "\<forall>i. Suc i < length xs \<and> xs ! i < qs ! j \<and> qs ! j < xs ! Suc i \<longrightarrow>
            interpolateAt xs (map Some ys) (qs ! j)
              = Some (ys ! i + (qs ! j - xs ! i) * (ys ! Suc i - ys ! i) / (xs ! Suc i - xs ! i))"
    using interpolateAt_inside [OF assms(1,2)] by auto
  have b: "xs \<noteq> [] \<and> qs ! j < xs ! 0 \<longrightarrow>
            interpolateAt xs (map Some ys) (qs ! j) = Some (ys ! 0)"
    using interpolateAt_below [OF assms(1,2)] by auto
  have a: "xs \<noteq> [] \<and> xs ! (length xs - 1) < qs ! j \<longrightarrow>
            interpolateAt xs (map Some ys) (qs ! j) = Some (ys ! (length ys - 1))"
    using interpolateAt_above [OF assms(1,2)] by auto
  show ?thesis unfolding e using k m b a by blast
qed

theorem interpolation_piecewise_linear_witness:
  "interpolateWaveSpectrum [1, 2, 4] (map Some [10, 20, 60]) [0, 1, 3, 4, 5]
     = [Some 10, Some 10, Some 40, Some 60, Some 60]"
proof -
  let ?xs = "[1, 2, 4 :: real]" and ?ys = "[10, 20, 60 :: real]" and ?qs = "[0, 1, 3, 4, 5 :: real]"
  let ?r = "interpolateWaveSpectrum ?xs (map Some ?ys) ?qs"
  have s: "sorted_wrt (<) ?xs" by simp
  have l: "length ?ys = length ?xs" by simp
  have j0: "0 < length ?qs" and j1: "1 < length ?qs" and j2: "2 < length ?qs"
    and j3: "3 < length ?qs" and j4: "4 < length ?qs" by simp_all
  have r0: "?r ! 0 = Some 10"
  proof -
    have "?xs \<noteq> [] \<and> ?qs ! 0 < ?xs ! 0" by simp
    then have "?r ! 0 = Some (?ys ! 0)"
      using interpolation_piecewise_linear [OF s l j0] by blast
    then show ?thesis by simp
  qed
  have r1: "?r ! 1 = Some 10"
  proof -
    have "(0::nat) < length ?xs \<and> ?qs ! 1 = ?xs ! 0" by simp
    then have "?r ! 1 = Some (?ys ! 0)"
      using interpolation_piecewise_linear [OF s l j1] by blast
    then show ?thesis by simp
  qed
  have r2: "?r ! 2 = Some 40"
  proof -
    have "Suc 1 < length ?xs \<and> ?xs ! 1 < ?qs ! 2 \<and> ?qs ! 2 < ?xs ! Suc 1" by simp
    then have "?r ! 2
        = Some (?ys ! 1 + (?qs ! 2 - ?xs ! 1) * (?ys ! Suc 1 - ?ys ! 1) / (?xs ! Suc 1 - ?xs ! 1))"
      using interpolation_piecewise_linear [OF s l j2] by blast
    then show ?thesis by simp
  qed
  have r3: "?r ! 3 = Some 60"
  proof -
    have "(2::nat) < length ?xs \<and> ?qs ! 3 = ?xs ! 2" by simp
    then have "?r ! 3 = Some (?ys ! 2)"
      using interpolation_piecewise_linear [OF s l j3] by blast
    then show ?thesis by simp
  qed
  have r4: "?r ! 4 = Some 60"
  proof -
    have "?xs \<noteq> [] \<and> ?xs ! (length ?xs - 1) < ?qs ! 4" by simp
    then have "?r ! 4 = Some (?ys ! (length ?ys - 1))"
      using interpolation_piecewise_linear [OF s l j4] by blast
    then show ?thesis by simp
  qed
  have n: "length ?r = 5" by (simp add: interpolateWaveSpectrum_def)
  have "?r = [?r ! 0, ?r ! 1, ?r ! 2, ?r ! 3, ?r ! 4]"
    by (simp add: interpolateWaveSpectrum_def)
  then show ?thesis unfolding r0 r1 r2 r3 r4 .
qed

subsection \<open>Reading a response table\<close>

text \<open>
  The claim C5 as stated fails at the phase 180, which the normalization maps to -180,
  outside the interval from -180 (excluded) to 180 (included).
\<close>

theorem normalize_phase_at_180:
  "normalize_phase 180 = -180 \<and> \<not> (-180 < normalize_phase 180 \<and> normalize_phase 180 \<le> 180)"
  by (simp add: normalize_phase_def js_rem_def js_trunc_def)

lemma normalize_phase_bounds:
  assumes "-180 \<le> p"
  shows "-180 \<le> normalize_phase p \<and> normalize_phase p < 180"
proof -
  have "0 \<le> p + 180" using assms by simp
  then have "0 \<le> js_rem (p + 180) 360 \<and> js_rem (p + 180) 360 < 360"
    using js_rem_nonneg by simp
  then show ?thesis by (simp add: normalize_phase_def)
qed

lemma push_row_prev: "prevPhase (push_row st (f, a, p)) = Some (normalize_phase p)"
  by (simp add: push_row_def Let_def)

text \<open>
  Claim C5, as amended. Every phase value of at least -180, of any size above, is
  normalized into the interval from -180 (included) to 180 (excluded), by a whole
  number of turns, and this normalized value is what the unwrapping step of the next
  row compares with.
\<close>

theorem normalize_phase_range:
  assumes "-180 \<le> p"
  shows "-180 \<le> normalize_phase p \<and> normalize_phase p < 180 \<and>
         (\<exists>k :: int. normalize_phase p = p - 360 * of_int k) \<and>
         prevPhase (push_row st (f, a, p)) = Some (normalize_phase p)"
proof -
  have "normalize_phase p = p - 360 * of_int (js_trunc ((p + 180) / 360))"
    by (simp add: normalize_phase_def js_rem_def)
  then have "\<exists>k :: int. normalize_phase p = p - 360 * of_int k" by blast
  then show ?thesis using normalize_phase_bounds [OF assms] push_row_prev by blast
qed

theorem normalize_phase_range_witness:
  "normalize_phase 725 = 5 \<and> normalize_phase (-180) = -180 \<and>
   prevPhase (push_row \<lparr> prevPhase = None, phaseOffset = 0, periods_acc = [],
                          amplitudes_acc = [], phases_acc = [] \<rparr> (1, 1, 725)) = Some 5"
proof -
  have a: "normalize_phase 725 = 5" by (simp add: normalize_phase_def js_rem_def js_trunc_def)
  have b: "normalize_phase (-180) = -180" by (simp add: normalize_phase_def js_rem_def js_trunc_def)
  have "(-180 :: real) \<le> 725" by simp
  from normalize_phase_range [OF this, of
      "\<lparr> prevPhase = None, phaseOffset = 0, periods_acc = [], amplitudes_acc = [], phases_acc = [] \<rparr>" 1 1]
  show ?thesis using a b by simp
qed

text \<open>
  The claim C6 as stated fails on a table whose rows are not in ascending frequency:
  the phases are unwrapped in the order of the file and sorted by frequency afterwards.
  Here the returned sequence steps by 340 degrees.
\<close>

theorem unsorted_table_large_step:
  "parseRAOFile read_decimal read_decimal
     ''#HEADING 0\<newline>w(r/s) amp phase\<newline>1 1 0\<newline>3 1 170\<newline>2 1 -20\<newline>'' 0
     = Parsed \<lparr> periods = [1, 2, 3], amplitudes = [1, 1, 1], phases = [0, 340, 170] \<rparr> \<and>
   \<not> phase_steps_within 1 [0, 340, 170]"
proof -
  have "parseRAOFile read_decimal read_decimal
     ''#HEADING 0\<newline>w(r/s) amp phase\<newline>1 1 0\<newline>3 1 170\<newline>2 1 -20\<newline>'' 0
     = Parsed \<lparr> periods = [1, 2, 3], amplitudes = [1, 1, 1], phases = [0, 340, 170] \<rparr>"
    by code_simp
  moreover have "\<not> phase_steps_within 1 [0, 340, 170]"
    by (simp add: phase_steps_within_def)
  ultimately show ?thesis by blast
qed

lemma steps_snoc:
  "phase_steps_within e (ps @ [u]) \<longleftrightarrow>
     phase_steps_within e ps \<and> (ps = [] \<or> \<bar>u - last ps\<bar> \<le> 180 + e)"
  by (auto simp: phase_steps_within_def successively_append_iff)

lemma push_row_inv:
  assumes "unwrap_inv st" and "-180 \<le> p"
  shows "unwrap_inv (push_row st (f, a, p))"
proof -
  note b = normalize_phase_bounds [OF assms(2)]
  show ?thesis
  proof (cases "prevPhase st")
    case None
    with assms(1) b show ?thesis
      by (auto simp: unwrap_inv_def push_row_def Let_def phase_steps_within_def)
  next
    case (Some prev)
    with assms(1) have i: "phase_steps_within 0 (phases_acc st)"
      "length (phases_acc st) = length (periods_acc st)"
      "phases_acc st \<noteq> []" "last (phases_acc st) = prev + phaseOffset st"
      "-180 \<le> prev" "prev < 180"
      by (simp_all add: unwrap_inv_def)
    show ?thesis
      using Some i b
      by (auto simp: unwrap_inv_def push_row_def Let_def steps_snoc)
  qed
qed

lemma push_row_periods: "periods_acc (push_row st row) = periods_acc st @ [fst row]"
  by (cases row) (simp add: push_row_def Let_def)

lemma foldl_push_row:
  assumes "unwrap_inv st" and "\<forall>row \<in> set rows. -180 \<le> snd (snd row)"
  shows "unwrap_inv (foldl push_row st rows) \<and>
         periods_acc (foldl push_row st rows) = periods_acc st @ map fst rows"
  using assms
proof (induction rows arbitrary: st)
  case Nil
  then show ?case by simp
next
  case (Cons row rows)
  obtain f a p where r: "row = (f, a, p)" by (cases row) auto
  have "unwrap_inv (push_row st row)"
    using Cons.prems push_row_inv [of st p f a] r by simp
  then show ?case
    using Cons.IH [of "push_row st row"] Cons.prems(2) push_row_periods [of st row] by simp
qed

lemma unwrap_rows_props:
  assumes "\<forall>row \<in> set rows. -180 \<le> snd (snd row)"
  shows "phase_steps_within 0 (phases_acc (unwrap_rows rows)) \<and>
         length (phases_acc (unwrap_rows rows)) = length (periods_acc (unwrap_rows rows)) \<and>
         periods_acc (unwrap_rows rows) = map fst rows"
proof -
  have "unwrap_inv \<lparr> prevPhase = None, phaseOffset = 0, periods_acc = [], amplitudes_acc = [],
                     phases_acc = [] \<rparr>"
    by (simp add: unwrap_inv_def phase_steps_within_def)
  from foldl_push_row [OF this assms] show ?thesis
    by (simp add: unwrap_rows_def unwrap_inv_def)
qed

lemma sorted_indices_id:
  assumes "sorted (xs :: real list)"
  shows "sort_key (\<lambda>i. xs ! i) [0..<length xs] = [0..<length xs]"
proof -
  have "map (\<lambda>i. xs ! i) [0..<length xs] = xs" by (rule map_nth)
  then show ?thesis using assms by (simp add: sort_key_id_if_sorted)
qed

lemma parse_phases:
  assumes "parseRAOFile toNumber parseFloat content target = Parsed r"
  shows "phases r =
           (let final = unwrap_rows (accepted_rows toNumber parseFloat content target)
            in map (\<lambda>i. phases_acc final ! i)
                 (sort_key (\<lambda>i. periods_acc final ! i) [0..<length (periods_acc final)]))"
  using assms
  by (auto simp: parseRAOFile_def accepted_rows_def Let_def split: if_splits option.splits)

text \<open>
  Claim C6, as amended. When the accepted rows of the table are in ascending
  (non-decreasing) frequency order and their phase values are at least -180, every
  step between neighbours of the returned phase sequence is at most 180 degrees.
\<close>

theorem unwrapped_phase_steps:
  assumes "parseRAOFile toNumber parseFloat content target = Parsed r"
    and "sorted (map fst (accepted_rows toNumber parseFloat content target))"
    and "\<forall>row \<in> set (accepted_rows toNumber parseFloat content target). -180 \<le> snd (snd row)"
  shows "phase_steps_within 0 (phases r)"
proof -
  define final where "final = unwrap_rows (accepted_rows toNumber parseFloat content target)"
  have p: "phase_steps_within 0 (phases_acc final)"
    and l: "length (phases_acc final) = length (periods_acc final)"
    and f: "periods_acc final = map fst (accepted_rows toNumber parseFloat content target)"
    using unwrap_rows_props [OF assms(3)] unfolding final_def by blast+
  have "sorted (periods_acc final)" using assms(2) f by simp
  then have "sort_key (\<lambda>i. periods_acc final ! i) [0..<length (periods_acc final)]
             = [0..<length (periods_acc final)]"
    by (rule sorted_indices_id)
  then have "phases r = map (\<lambda>i. phases_acc final ! i) [0..<length (phases_acc final)]"
    using parse_phases [OF assms(1)] l unfolding final_def by (simp add: Let_def)
  then have "phases r = phases_acc final" by (simp add: map_nth)
  with p show ?thesis by simp
qed

theorem unwrapped_phase_steps_witness:
  "parseRAOFile read_decimal read_decimal
     ''#HEADING 0\<newline>w(r/s) amp phase\<newline>1 1 0\<newline>2 1 170\<newline>3 1 -20\<newline>'' 0
     = Parsed \<lparr> periods = [1, 2, 3], amplitudes = [1, 1, 1], phases = [0, 170, 340] \<rparr> \<and>
   phase_steps_within 0 [0, 170, 340]"
proof -
  let ?c = "''#HEADING 0\<newline>w(r/s) amp phase\<newline>1 1 0\<newline>2 1 170\<newline>3 1 -20\<newline>''"
  have p: "parseRAOFile read_decimal read_decimal ?c 0
     = Parsed \<lparr> periods = [1, 2, 3], amplitudes = [1, 1, 1], phases = [0, 170, 340] \<rparr>"
    by code_simp
  have a: "accepted_rows read_decimal read_decimal ?c 0 = [(1, 1, 0), (2, 1, 170), (3, 1, -20)]"
    by code_simp
  have s: "sorted (map fst (accepted_rows read_decimal read_decimal ?c 0))"
    unfolding a by simp
  have b: "\<forall>row \<in> set (accepted_rows read_decimal read_decimal ?c 0). -180 \<le> snd (snd row)"
    unfolding a by simp
  from unwrapped_phase_steps [OF p s b] p show ?thesis by simp
qed




























subsection \<open>Calibration of alpha\<close>

lemma omega_from_ge: "x \<in> set (omega_from w) \<Longrightarrow> w \<le> x"
proof (induction w rule: omega_from.induct)
  case (1 w)
  show ?case
  proof (cases "w \<le> 6")
    case True
    then have "x = w \<or> x \<in> set (omega_from (w + 0.01))"
      using "1.prems" by (subst (asm) omega_from.simps) auto
    then show ?thesis using "1.IH" [OF True] by auto
  next
    case False
    then show ?thesis using "1.prems" by (subst (asm) omega_from.simps) simp
  qed
qed

lemma omega_from_sorted: "sorted_wrt (<) (omega_from w)"
proof (induction w rule: omega_from.induct)
  case (1 w)
  show ?case
  proof (cases "w \<le> 6")
    case True
    have "\<forall>x \<in> set (omega_from (w + 0.01)). w < x"
      using omega_from_ge [of _ "w + 0.01"] by fastforce
    then show ?thesis using "1.IH" [OF True] True by (subst omega_from.simps) simp
  next
    case False
    then show ?thesis by (subst omega_from.simps) simp
  qed
qed

lemma omega_grid_pos: "x \<in> set omega_grid \<Longrightarrow> 0 < x"
  using omega_from_ge [of x "0.01"] by (simp add: omega_grid_def)

lemma omega_grid_sorted: "sorted_wrt (<) omega_grid"
  by (simp add: omega_grid_def omega_from_sorted)

lemma omega_grid_length: "2 \<le> length omega_grid"
proof -
  have a: "omega_from (1 / 100) = (1 / 100) # omega_from (1 / 100 + 1 / 100)"
    by (subst omega_from.simps) simp
  have b: "omega_from (1 / 100 + 1 / 100) = (1 / 100 + 1 / 100) # omega_from (1 / 100 + 1 / 100 + 1 / 100)"
    by (subst omega_from.simps) simp
  have "length (omega_from (1 / 100)) = Suc (Suc (length (omega_from (1 / 100 + 1 / 100 + 1 / 100))))"
    by (subst a, subst b) simp
  then show ?thesis unfolding omega_grid_def by simp
qed

text \<open>The trapezoidal rule of the code over finite values is the trapezoidal sum.\<close>

lemma trapezoidalIntegration_Some:
  assumes "length x \<le> length ys"
  shows "trapezoidalIntegration x (map Some ys) = Some (trapezoidal_integral x ys)"
proof -
  let ?f = "\<lambda>i integral.
             let dx = x ! i - x ! (i - 1)
             in num_add integral
                  (num_mul (num_mul (Some 0.5) (num_add (num_at (map Some ys) (i - 1)) (num_at (map Some ys) i))) (Some dx))"
  have "n \<le> length x \<Longrightarrow> fold ?f [1..<n] (Some acc)
        = Some (acc + (\<Sum>i = 1..<n. (ys ! i + ys ! (i - 1)) / 2 * (x ! i - x ! (i - 1))))" for n acc
  proof (induction n)
    case 0
    show ?case by simp
  next
    case (Suc n)
    show ?case
    proof (cases "1 \<le> n")
      case True
      then have u: "[1..<Suc n] = [1..<n] @ [n]" by simp
      have n: "n < length ys" "n - 1 < length ys" using Suc.prems assms by simp_all
      have s: "fold ?f [1..<n] (Some acc)
               = Some (acc + (\<Sum>i = 1..<n. (ys ! i + ys ! (i - 1)) / 2 * (x ! i - x ! (i - 1))))"
        using Suc by simp
      show ?thesis unfolding u fold_append comp_def s using True n
        by (simp add: Let_def num_add_def num_mul_def num_at_def js_index_def field_simps)
    next
      case False
      then show ?thesis by simp
    qed
  qed
  from this [of "length x" 0] show ?thesis
    by (simp add: trapezoidalIntegration_def trapezoidal_integral_def)
qed

lemma trapezoidalIntegration_None:
  assumes "2 \<le> length x" and "num_at y 0 = None"
  shows "trapezoidalIntegration x y = None"
proof -
  let ?f = "\<lambda>i integral.
             let dx = x ! i - x ! (i - 1)
             in num_add integral
                  (num_mul (num_mul (Some 0.5) (num_add (num_at y (i - 1)) (num_at y i))) (Some dx))"
  have k: "fold ?f is None = None" for "is"
    by (induction "is") (simp_all add: Let_def num_add_def)
  have u: "[1..<length x] = 1 # [Suc 1..<length x]" by (rule upt_conv_Cons) (use assms(1) in simp)
  have "?f 1 (Some 0) = None" using assms(2) by (simp add: Let_def num_add_def num_mul_def)
  then show ?thesis unfolding trapezoidalIntegration_def u by (simp only: fold_simps k)
qed

lemma trapezoidal_integral_scale:
  assumes "length x \<le> length y"
  shows "trapezoidal_integral x (map (\<lambda>v. c * v) y) = c * trapezoidal_integral x y"
proof -
  have "(map (\<lambda>v. c * v) y ! i + map (\<lambda>v. c * v) y ! (i - 1)) / 2 * (x ! i - x ! (i - 1))
        = c * ((y ! i + y ! (i - 1)) / 2 * (x ! i - x ! (i - 1)))"
    if "i \<in> {1..<length x}" for i
  proof -
    have "i < length y" "i - 1 < length y" using that assms by auto
    then have "map (\<lambda>v. c * v) y ! i = c * y ! i" "map (\<lambda>v. c * v) y ! (i - 1) = c * y ! (i - 1)"
      by simp_all
    then show ?thesis by (simp add: algebra_simps)
  qed
  then have "(\<Sum>i = 1..<length x. (map (\<lambda>v. c * v) y ! i + map (\<lambda>v. c * v) y ! (i - 1)) / 2 * (x ! i - x ! (i - 1)))
      = (\<Sum>i = 1..<length x. c * ((y ! i + y ! (i - 1)) / 2 * (x ! i - x ! (i - 1))))"
    by (rule sum.cong [OF refl])
  also have "\<dots> = c * (\<Sum>i = 1..<length x. (y ! i + y ! (i - 1)) / 2 * (x ! i - x ! (i - 1)))"
    by (rule sum_distrib_left [symmetric])
  finally show ?thesis unfolding trapezoidal_integral_def .
qed

lemma spectrumAt_Some:
  assumes "Tp \<noteq> 0" and "w \<noteq> 0"
  shows "spectrumAt (Some a) Tp gamma g w = Some (a * unit_spectrum Tp gamma g w)"
  using assms by (simp add: spectrumAt_def unit_spectrum_def Let_def num_mul_def mult.assoc)

lemma spectrumAt_None: "spectrumAt None Tp gamma g w = None"
  by (simp add: spectrumAt_def Let_def num_mul_def)

lemma spectrum_Some:
  assumes "Tp \<noteq> 0"
  shows "computeSpectrumWithAlpha omega_grid (Some a) Tp gamma g
         = map Some (map (\<lambda>v. a * v) (map (unit_spectrum Tp gamma g) omega_grid))"
proof -
  have "spectrumAt (Some a) Tp gamma g w = Some (a * unit_spectrum Tp gamma g w)"
    if "w \<in> set omega_grid" for w
    using omega_grid_pos [OF that] assms by (intro spectrumAt_Some) simp_all
  then show ?thesis unfolding computeSpectrumWithAlpha_def by simp
qed

lemma m0_Some:
  assumes "Tp \<noteq> 0"
  shows "trapezoidalIntegration omega_grid (computeSpectrumWithAlpha omega_grid (Some a) Tp gamma g)
         = Some (a * unit_m0 Tp gamma g)"
  unfolding spectrum_Some [OF assms] unit_m0_def
  by (subst trapezoidalIntegration_Some, simp, subst trapezoidal_integral_scale, simp, rule refl)

lemma m0_None:
  assumes "2 \<le> length omega"
  shows "trapezoidalIntegration omega (computeSpectrumWithAlpha omega None Tp gamma g) = None"
proof (rule trapezoidalIntegration_None [OF assms])
  obtain w ws where "omega = w # ws" using assms by (cases omega) simp_all
  then show "num_at (computeSpectrumWithAlpha omega None Tp gamma g) 0 = None"
    by (simp add: num_at_def js_index_def computeSpectrumWithAlpha_def spectrumAt_None)
qed

lemma estimatedHs_Some:
  assumes "Tp \<noteq> 0" and "0 \<le> a * unit_m0 Tp gamma g"
  shows "estimatedHs_of omega_grid (Some a) Tp gamma g = Some (4 * sqrt (a * unit_m0 Tp gamma g))"
  unfolding estimatedHs_of_def Let_def m0_Some [OF assms(1)]
  using assms(2) by (simp add: num_mul_def num_sqrt_def)

lemma ratio_of_None:
  assumes "2 \<le> length omega"
  shows "ratio_of omega H Tp gamma g None = None"
  unfolding ratio_of_def estimatedHs_of_def Let_def m0_None [OF assms]
  by (simp add: num_div_def num_mul_def num_sqrt_def)

lemma next_alpha_None: "next_alpha omega H Tp gamma g None = None"
  by (simp add: next_alpha_def num_mul_def)

lemma ratio_of_Some:
  assumes "Tp \<noteq> 0" and "0 < a * unit_m0 Tp gamma g"
  shows "ratio_of omega_grid H Tp gamma g (Some a) = Some (H / (4 * sqrt (a * unit_m0 Tp gamma g)))"
proof -
  have "0 \<le> a * unit_m0 Tp gamma g" using assms(2) by simp
  note e = estimatedHs_Some [OF assms(1) this]
  define m where "m = a * unit_m0 Tp gamma g"
  have "0 < sqrt m" using assms(2) unfolding m_def by (simp only: real_sqrt_gt_zero)
  then have "4 * sqrt m \<noteq> 0" by simp
  then show ?thesis unfolding ratio_of_def e m_def [symmetric] by (simp only: num_div_def option.case if_False)
qed

text \<open>A zero moment: the ratio is not finite.\<close>

lemma ratio_of_zero_moment:
  assumes "Tp \<noteq> 0" and "unit_m0 Tp gamma g = 0"
  shows "ratio_of omega_grid H Tp gamma g (Some a) = None"
proof -
  have "0 \<le> a * unit_m0 Tp gamma g" using assms(2) by simp
  note e = estimatedHs_Some [OF assms(1) this]
  show ?thesis unfolding ratio_of_def e using assms(2) by (simp add: num_div_def)
qed

text \<open>The loop returns the alpha of its first passing check, or the alpha after its
  last update.\<close>

lemma loop_exhausted:
  assumes "\<forall>k < n. \<not> within_tolerance (ratio_of omega H Tp gamma g ((next_alpha omega H Tp gamma g ^^ k) a))"
  shows "alpha_loop n omega H Tp gamma g a = (next_alpha omega H Tp gamma g ^^ n) a"
  using assms
proof (induction n arbitrary: a)
  case 0
  show ?case by simp
next
  case (Suc n)
  have z: "\<not> within_tolerance (ratio_of omega H Tp gamma g a)" using Suc.prems by force
  have "\<forall>k < n. \<not> within_tolerance (ratio_of omega H Tp gamma g
            ((next_alpha omega H Tp gamma g ^^ k) (next_alpha omega H Tp gamma g a)))"
  proof (intro allI impI)
    fix k assume "k < n"
    then have "Suc k < Suc n" by simp
    then have "\<not> within_tolerance (ratio_of omega H Tp gamma g ((next_alpha omega H Tp gamma g ^^ Suc k) a))"
      using Suc.prems by blast
    then show "\<not> within_tolerance (ratio_of omega H Tp gamma g
            ((next_alpha omega H Tp gamma g ^^ k) (next_alpha omega H Tp gamma g a)))"
      unfolding funpow_Suc_right comp_def .
  qed
  then have "alpha_loop n omega H Tp gamma g (next_alpha omega H Tp gamma g a)
             = (next_alpha omega H Tp gamma g ^^ n) (next_alpha omega H Tp gamma g a)"
    by (rule Suc.IH)
  moreover have "alpha_loop (Suc n) omega H Tp gamma g a
                 = alpha_loop n omega H Tp gamma g (next_alpha omega H Tp gamma g a)"
    using z by (simp add: Let_def ratio_of_def next_alpha_def)
  ultimately show ?case by (simp only: funpow_Suc_right comp_def)
qed

lemma loop_stops:
  assumes "k < n"
    and "within_tolerance (ratio_of omega H Tp gamma g ((next_alpha omega H Tp gamma g ^^ k) a))"
    and "\<forall>j < k. \<not> within_tolerance (ratio_of omega H Tp gamma g ((next_alpha omega H Tp gamma g ^^ j) a))"
  shows "alpha_loop n omega H Tp gamma g a = (next_alpha omega H Tp gamma g ^^ k) a"
  using assms
proof (induction n arbitrary: a k)
  case 0
  then show ?case by simp
next
  case (Suc n)
  show ?case
  proof (cases k)
    case 0
    then have "within_tolerance (ratio_of omega H Tp gamma g a)" using Suc.prems(2) by simp
    then show ?thesis using 0 by (simp add: Let_def ratio_of_def)
  next
    case (Suc m)
    have z: "\<not> within_tolerance (ratio_of omega H Tp gamma g a)"
      using Suc.prems(3) Suc by force
    have m: "m < n" using Suc.prems(1) Suc by simp
    have p: "within_tolerance (ratio_of omega H Tp gamma g
               ((next_alpha omega H Tp gamma g ^^ m) (next_alpha omega H Tp gamma g a)))"
      using Suc.prems(2) unfolding Suc by (simp only: funpow_Suc_right comp_def)
    have q: "\<forall>j < m. \<not> within_tolerance (ratio_of omega H Tp gamma g
               ((next_alpha omega H Tp gamma g ^^ j) (next_alpha omega H Tp gamma g a)))"
    proof (intro allI impI)
      fix j assume "j < m"
      then have "Suc j < k" using Suc by simp
      then have "\<not> within_tolerance (ratio_of omega H Tp gamma g ((next_alpha omega H Tp gamma g ^^ Suc j) a))"
        using Suc.prems(3) by blast
      then show "\<not> within_tolerance (ratio_of omega H Tp gamma g
              ((next_alpha omega H Tp gamma g ^^ j) (next_alpha omega H Tp gamma g a)))"
        unfolding funpow_Suc_right comp_def .
    qed
    have "alpha_loop n omega H Tp gamma g (next_alpha omega H Tp gamma g a)
          = (next_alpha omega H Tp gamma g ^^ m) (next_alpha omega H Tp gamma g a)"
      using m p q by (rule Suc.IH)
    moreover have "alpha_loop (Suc n) omega H Tp gamma g a
                   = alpha_loop n omega H Tp gamma g (next_alpha omega H Tp gamma g a)"
      using z by (simp add: Let_def ratio_of_def next_alpha_def)
    ultimately show ?thesis unfolding Suc by (simp only: funpow_Suc_right comp_def)
  qed
qed

lemma js_exp_nonneg: "0 \<le> js_exp x"
  by (simp add: js_exp_def)

lemma js_exp_le_one: "x \<le> 0 \<Longrightarrow> js_exp x \<le> 1"
  by (simp add: js_exp_def)

lemma js_exp_exact: "- 746 < x \<Longrightarrow> js_exp x = exp x"
  by (simp add: js_exp_def)

lemma js_exp_underflow: "x \<le> - 746 \<Longrightarrow> js_exp x = 0"
  by (simp add: js_exp_def)

lemma unit_spectrum_nonneg:
  assumes "0 < w"
  shows "0 \<le> unit_spectrum Tp gamma g w"
proof -
  have "0 \<le> w powi (-5)" using assms by simp
  moreover have "0 \<le> g ^ 2" by simp
  moreover have "0 \<le> gamma powr e" for e by simp
  ultimately show ?thesis by (simp add: unit_spectrum_def Let_def js_exp_nonneg)
qed

text \<open>One update takes the ratio to its square root.\<close>

lemma next_alpha_Some:
  assumes "Tp \<noteq> 0" and "0 < a" and "0 < unit_m0 Tp gamma g"
  shows "next_alpha omega_grid H Tp gamma g (Some a)
         = Some (a * (H / (4 * sqrt (a * unit_m0 Tp gamma g))))"
proof -
  have "0 < a * unit_m0 Tp gamma g" using assms(2,3) by simp
  then show ?thesis unfolding next_alpha_def ratio_of_Some [OF assms(1) \<open>0 < a * unit_m0 Tp gamma g\<close>]
    by (simp add: num_mul_def)
qed

lemma ratio_update:
  assumes "0 < a" and "0 < H" and "0 < U" and r_def: "r = H / (4 * sqrt (a * U))"
  shows "0 < r" and "0 < a * r" and "H / (4 * sqrt (a * r * U)) = sqrt r"
proof -
  have e: "0 < 4 * sqrt (a * U)" using assms(1,3) by simp
  show r: "0 < r" unfolding r_def using assms(2) e by simp
  show "0 < a * r" using assms(1) r by simp
  have "4 * sqrt (a * r * U) = 4 * sqrt (a * U) * sqrt r"
    by (simp add: real_sqrt_mult algebra_simps)
  then have "H / (4 * sqrt (a * r * U)) = r / sqrt r"
    unfolding r_def by simp
  also have "\<dots> = sqrt r" using r by (simp add: real_div_sqrt)
  finally show "H / (4 * sqrt (a * r * U)) = sqrt r" .
qed

lemma updates_Some:
  assumes "Tp \<noteq> 0" and "0 < a" and "0 < H" and "0 < unit_m0 Tp gamma g"
  shows "\<exists>a'. 0 < a' \<and> (next_alpha omega_grid H Tp gamma g ^^ k) (Some a) = Some a' \<and>
              H / (4 * sqrt (a' * unit_m0 Tp gamma g))
                = (sqrt ^^ k) (H / (4 * sqrt (a * unit_m0 Tp gamma g)))"
proof (induction k)
  case 0
  show ?case using assms(2) by simp
next
  case (Suc k)
  then obtain a' where a': "0 < a'"
      "(next_alpha omega_grid H Tp gamma g ^^ k) (Some a) = Some a'"
      "H / (4 * sqrt (a' * unit_m0 Tp gamma g))
         = (sqrt ^^ k) (H / (4 * sqrt (a * unit_m0 Tp gamma g)))"
    by blast
  define r where "r = H / (4 * sqrt (a' * unit_m0 Tp gamma g))"
  note u = ratio_update [OF a'(1) assms(3,4) r_def]
  have n: "(next_alpha omega_grid H Tp gamma g ^^ Suc k) (Some a) = Some (a' * r)"
    unfolding funpow.simps comp_def a'(2) r_def by (rule next_alpha_Some [OF assms(1) a'(1) assms(4)])
  have "r = (sqrt ^^ k) (H / (4 * sqrt (a * unit_m0 Tp gamma g)))"
    unfolding r_def by (rule a'(3))
  then have "sqrt r = (sqrt ^^ Suc k) (H / (4 * sqrt (a * unit_m0 Tp gamma g)))" by simp
  then have "H / (4 * sqrt (a' * r * unit_m0 Tp gamma g))
        = (sqrt ^^ Suc k) (H / (4 * sqrt (a * unit_m0 Tp gamma g)))"
    using u(3) by simp
  with u(2) n show ?case by blast
qed

lemma sqrt_between_powers:
  assumes "0 < c" and "c ^ (2 ^ Suc n) < r" 
  shows "c ^ (2 ^ n) < sqrt (r :: real)"
proof -
  have "(c ^ (2 ^ n)) ^ 2 = c ^ (2 ^ Suc n)" by (simp add: power_mult [symmetric] mult.commute)
  then have "(c ^ (2 ^ n)) ^ 2 < r" using assms(2) by simp
  then have "sqrt ((c ^ (2 ^ n)) ^ 2) < sqrt r" by (simp only: real_sqrt_less_iff)
  moreover have "0 \<le> c ^ (2 ^ n)" using assms(1) by simp
  ultimately show ?thesis by simp
qed

lemma sqrt_below_powers:
  assumes "0 < c" and "r < c ^ (2 ^ Suc n)" 
  shows "sqrt (r :: real) < c ^ (2 ^ n)"
proof -
  have "(c ^ (2 ^ n)) ^ 2 = c ^ (2 ^ Suc n)" by (simp add: power_mult [symmetric] mult.commute)
  then have "r < (c ^ (2 ^ n)) ^ 2" using assms(2) by simp
  then have "sqrt r < sqrt ((c ^ (2 ^ n)) ^ 2)" by (simp only: real_sqrt_less_iff)
  moreover have "0 \<le> c ^ (2 ^ n)" using assms(1) by simp
  ultimately show ?thesis by simp
qed

lemma sqrt_iter_lower:
  assumes "0 < c" and "c ^ (2 ^ n) < r"
  shows "c < (sqrt ^^ n) (r :: real)"
  using assms(2)
proof (induction n arbitrary: r)
  case 0
  then show ?case by simp
next
  case (Suc n)
  have "c ^ (2 ^ n) < sqrt r" using assms(1) Suc.prems by (rule sqrt_between_powers)
  then have "c < (sqrt ^^ n) (sqrt r)" by (rule Suc.IH)
  then show ?case unfolding funpow_Suc_right comp_def .
qed

lemma sqrt_iter_upper:
  assumes "0 < c" and "r < c ^ (2 ^ n)"
  shows "(sqrt ^^ n) (r :: real) < c"
  using assms(2)
proof (induction n arbitrary: r)
  case 0
  then show ?case by simp
next
  case (Suc n)
  have "sqrt r < c ^ (2 ^ n)" using assms(1) Suc.prems by (rule sqrt_below_powers)
  then have "(sqrt ^^ n) (sqrt r) < c" by (rule Suc.IH)
  then show ?case unfolding funpow_Suc_right comp_def .
qed

text \<open>From a first ratio within the range, a check among the 50 passes, and the loop
  returns at the first one that does.\<close>

lemma loop_converges:
  assumes "Tp \<noteq> 0" and "0 < H" and "0 < unit_m0 Tp gamma g"
    and "ratio_lower < H / (4 * sqrt (0.0081 * unit_m0 Tp gamma g))"
    and "H / (4 * sqrt (0.0081 * unit_m0 Tp gamma g)) < ratio_upper"
  shows "\<exists>k a. k < 50 \<and> 0 < a \<and>
           calculateAlphaIterative omega_grid H Tp gamma g = Some a \<and>
           alpha_after omega_grid H Tp gamma g k = Some a \<and>
           \<bar>H / (4 * sqrt (a * unit_m0 Tp gamma g)) - 1\<bar> < tolerance"
proof -
  define U where "U = unit_m0 Tp gamma g"
  define P where "P = (\<lambda>k. within_tolerance (ratio_of omega_grid H Tp gamma g
                              (alpha_after omega_grid H Tp gamma g k)))"
  have a0: "(0::real) < 0.0081" by simp
  have each: "\<exists>a'. 0 < a' \<and> alpha_after omega_grid H Tp gamma g k = Some a' \<and>
                ratio_of omega_grid H Tp gamma g (Some a') = Some (H / (4 * sqrt (a' * U))) \<and>
                H / (4 * sqrt (a' * U)) = (sqrt ^^ k) (H / (4 * sqrt (0.0081 * U)))" for k
  proof -
    obtain a' where a': "0 < a'"
        "(next_alpha omega_grid H Tp gamma g ^^ k) (Some 0.0081) = Some a'"
        "H / (4 * sqrt (a' * U)) = (sqrt ^^ k) (H / (4 * sqrt (0.0081 * U)))"
      using updates_Some [OF assms(1) a0 assms(2,3), of k] unfolding U_def by blast
    have "0 < a' * unit_m0 Tp gamma g" using a'(1) assms(3) by simp
    then have "ratio_of omega_grid H Tp gamma g (Some a') = Some (H / (4 * sqrt (a' * U)))"
      unfolding U_def by (rule ratio_of_Some [OF assms(1)])
    with a' show ?thesis unfolding alpha_after_def by blast
  qed
  have "P 49"
  proof -
    obtain a' where a': "alpha_after omega_grid H Tp gamma g 49 = Some a'"
        "ratio_of omega_grid H Tp gamma g (Some a') = Some (H / (4 * sqrt (a' * U)))"
        "H / (4 * sqrt (a' * U)) = (sqrt ^^ 49) (H / (4 * sqrt (0.0081 * U)))"
      using each [of 49] by blast
    have "999 / 1000 < (sqrt ^^ 49) (H / (4 * sqrt (0.0081 * U)))"
      using assms(4) unfolding ratio_lower_def U_def [symmetric] by (intro sqrt_iter_lower) simp_all
    moreover have "(sqrt ^^ 49) (H / (4 * sqrt (0.0081 * U))) < 1001 / 1000"
      using assms(5) unfolding ratio_upper_def U_def [symmetric] by (intro sqrt_iter_upper) simp_all
    ultimately have "\<bar>H / (4 * sqrt (a' * U)) - 1\<bar> < tolerance"
      unfolding a'(3) tolerance_def by linarith
    then show ?thesis unfolding P_def a'(1) a'(2) within_tolerance_def by simp
  qed
  define k where "k = (LEAST k. P k)"
  have pk: "P k" unfolding k_def using \<open>P 49\<close> by (rule LeastI)
  have "k \<le> 49" unfolding k_def using \<open>P 49\<close> by (rule Least_le)
  then have k50: "k < maxIter" unfolding maxIter_def by simp
  have first: "\<forall>j < k. \<not> P j" unfolding k_def using not_less_Least by blast
  have c: "calculateAlphaIterative omega_grid H Tp gamma g = alpha_after omega_grid H Tp gamma g k"
    unfolding calculateAlphaIterative_def alpha_after_def
    using k50 pk first unfolding P_def alpha_after_def by (rule loop_stops)
  obtain a' where a': "0 < a'" "alpha_after omega_grid H Tp gamma g k = Some a'"
      "ratio_of omega_grid H Tp gamma g (Some a') = Some (H / (4 * sqrt (a' * U)))"
    using each [of k] by blast
  have "\<bar>H / (4 * sqrt (a' * U)) - 1\<bar> < tolerance"
    using pk unfolding P_def a'(2) a'(3) within_tolerance_def by simp
  moreover have "k < 50" using k50 unfolding maxIter_def .
  ultimately show ?thesis using a'(1,2) c unfolding U_def by auto
qed

lemma omega_from_nth:
  "i < length (omega_from w) \<Longrightarrow> omega_from w ! i = w + real i / 100"
proof (induction w arbitrary: i rule: omega_from.induct)
  case (1 w)
  show ?case
  proof (cases "w \<le> 6")
    case True
    have e: "omega_from w = w # omega_from (w + 0.01)"
      using True by (subst omega_from.simps) simp
    show ?thesis
    proof (cases i)
      case 0
      then show ?thesis by (simp add: e)
    next
      case (Suc k)
      then have "k < length (omega_from (w + 0.01))" using "1.prems" e by simp
      then have "omega_from (w + 0.01) ! k = w + 0.01 + real k / 100"
        using "1.IH" [OF True] by simp
      then show ?thesis using Suc by (simp add: e)
    qed
  next
    case False
    then have "omega_from w = []" by (subst omega_from.simps) simp
    with "1.prems" show ?thesis by simp
  qed
qed

lemma omega_from_le_6: "x \<in> set (omega_from w) \<Longrightarrow> x \<le> 6"
proof (induction w rule: omega_from.induct)
  case (1 w)
  show ?case
  proof (cases "w \<le> 6")
    case True
    then have "x = w \<or> x \<in> set (omega_from (w + 0.01))"
      using "1.prems" by (subst (asm) omega_from.simps) auto
    then show ?thesis using "1.IH" [OF True] True by auto
  next
    case False
    then show ?thesis using "1.prems" by (subst (asm) omega_from.simps) simp
  qed
qed

lemma omega_from_reaches: "6 < w + real (length (omega_from w)) / 100"
proof (induction w rule: omega_from.induct)
  case (1 w)
  show ?case
  proof (cases "w \<le> 6")
    case True
    have e: "omega_from w = w # omega_from (w + 0.01)"
      using True by (subst omega_from.simps) simp
    show ?thesis using "1.IH" [OF True] by (simp add: e add_divide_distrib)
  next
    case False
    then have "omega_from w = []" by (subst omega_from.simps) simp
    with False show ?thesis by simp
  qed
qed

text \<open>The last two points of the grid.\<close>

lemma omega_grid_last:
  defines "n \<equiv> length omega_grid"
  shows "2 \<le> n"
    and "omega_grid ! (n - 1) - omega_grid ! (n - 2) = 1 / 100"
    and "599 / 100 < omega_grid ! (n - 1)" and "omega_grid ! (n - 1) \<le> 6"
proof -
  show n2: "2 \<le> n" unfolding n_def by (rule omega_grid_length)
  then obtain m where m: "n = Suc (Suc m)" by (metis Suc_le_D numeral_2_eq_2 Suc_le_mono)
  have l: "length (omega_from (1 / 100)) = Suc (Suc m)"
    using m unfolding n_def omega_grid_def by simp
  have a: "omega_grid ! Suc m = 1 / 100 + real (Suc m) / 100"
    unfolding omega_grid_def using omega_from_nth [of "Suc m" "1 / 100"] l by simp
  have b: "omega_grid ! m = 1 / 100 + real m / 100"
    unfolding omega_grid_def using omega_from_nth [of m "1 / 100"] l by simp
  have i: "n - 1 = Suc m" "n - 2 = m" using m by simp_all
  show "omega_grid ! (n - 1) - omega_grid ! (n - 2) = 1 / 100"
    unfolding i a b by (simp add: add_divide_distrib)
  have "6 < 1 / 100 + real (Suc (Suc m)) / 100"
    using omega_from_reaches [of "1 / 100"] unfolding l .
  then show "599 / 100 < omega_grid ! (n - 1)" unfolding i a by (simp add: add_divide_distrib)
  have "omega_grid ! Suc m \<in> set omega_grid"
    using l unfolding omega_grid_def by (intro nth_mem) simp
  then show "omega_grid ! (n - 1) \<le> 6" unfolding i omega_grid_def by (rule omega_from_le_6)
qed

lemma two_pow_49: "real ((2::nat) ^ 49) = 562949953421312"
  by simp

lemma ratio_upper_large: "100000000 < ratio_upper"
proof -
  define N :: nat where "N = 2 ^ 49"
  have n: "real N = 562949953421312" unfolding N_def by (rule two_pow_49)
  have e: "(1 + 1 / 1000 :: real) = 1001 / 1000" by simp
  have "1 + of_nat N * (1 / 1000 :: real) \<le> (1 + 1 / 1000) ^ N"
    by (rule Bernoulli_inequality) simp
  moreover have "(100000000 :: real) < 1 + of_nat N * (1 / 1000)" unfolding n by simp
  ultimately have "(100000000 :: real) < (1 + 1 / 1000) ^ N" by (rule less_le_trans [rotated])
  then show ?thesis unfolding ratio_upper_def N_def e .
qed

lemma ratio_lower_small: "ratio_lower < 1 / 1600000000"
proof -
  define N :: nat where "N = 2 ^ 49"
  have n: "real N = 562949953421312" unfolding N_def by (rule two_pow_49)
  have e: "(1 + 1 / 999 :: real) = inverse (999 / 1000)" by simp
  have "1 + of_nat N * (1 / 999 :: real) \<le> (1 + 1 / 999) ^ N"
    by (rule Bernoulli_inequality) simp
  moreover have "(1600000000 :: real) < 1 + of_nat N * (1 / 999)" unfolding n by simp
  ultimately have "(1600000000 :: real) < (1 + 1 / 999) ^ N" by (rule less_le_trans [rotated])
  then have "(1600000000 :: real) < inverse ((999 / 1000) ^ N)"
    unfolding e power_inverse .
  then have i: "(1600000000 :: real) < inverse ratio_lower" unfolding ratio_lower_def N_def .
  have "inverse (inverse ratio_lower) < inverse 1600000000"
    using i by (rule less_imp_inverse_less) simp
  then show ?thesis by (simp add: inverse_eq_divide)
qed

text \<open>Bounds on the spectrum for alpha = 1 over the grid.\<close>

lemma unit_spectrum_upper:
  assumes "1 / 100 \<le> w"
  shows "unit_spectrum Tp 3.3 9.81 w \<le> 3175791300000"
proof -
  define omega_p where "omega_p = 2 * pi / Tp"
  define sigma :: real where "sigma = (if w \<le> omega_p then 0.07 else 0.09)"
  define exp1 where "exp1 = js_exp (- 1.25 * (omega_p / w) ^ 4)"
  define exp2 where "exp2 = js_exp (- ((w - omega_p) ^ 2) / (2 * (sigma * omega_p) ^ 2))"
  have s: "unit_spectrum Tp 3.3 9.81 w = 9.81 ^ 2 * (w powi (-5)) * exp1 * (3.3 powr exp2)"
    unfolding unit_spectrum_def Let_def omega_p_def sigma_def exp1_def exp2_def by (rule refl)
  have w0: "0 < w" using assms by simp
  have "(1 / 100) ^ 5 \<le> w ^ 5" using assms by (intro power_mono) simp_all
  then have "inverse (w ^ 5) \<le> inverse ((1 / 100 :: real) ^ 5)"
    by (intro le_imp_inverse_le) simp_all
  moreover have "inverse ((1 / 100 :: real) ^ 5) = 10000000000" by (simp add: power_divide)
  ultimately have "inverse (w ^ 5) \<le> 10000000000" by simp
  then have p: "w powi (-5) \<le> 10000000000" by (simp add: power_int_minus)
  have p0: "0 \<le> w powi (-5)" using w0 by simp
  have "- 1.25 * (omega_p / w) ^ 4 \<le> 0" by simp
  then have e1: "exp1 \<le> 1" unfolding exp1_def by (rule js_exp_le_one)
  have e10: "0 \<le> exp1" unfolding exp1_def by (rule js_exp_nonneg)
  have "- ((w - omega_p) ^ 2) / (2 * (sigma * omega_p) ^ 2) \<le> 0"
    by (intro divide_nonpos_nonneg) simp_all
  then have "exp2 \<le> 1" unfolding exp2_def by (rule js_exp_le_one)
  then have "(3.3 :: real) powr exp2 \<le> 3.3 powr 1" by (intro powr_mono) simp_all
  then have g: "(3.3 :: real) powr exp2 \<le> 3.3" by simp
  have g0: "0 \<le> (3.3 :: real) powr exp2" by simp
  have a: "w powi (-5) * exp1 \<le> 10000000000 * 1"
    using p e1 _ e10 by (rule mult_mono) simp
  have "w powi (-5) * exp1 * (3.3 powr exp2) \<le> 10000000000 * 1 * 3.3"
    using a g _ g0 by (rule mult_mono) simp
  then have "9.81 ^ 2 * (w powi (-5) * exp1 * (3.3 powr exp2)) \<le> 9.81 ^ 2 * (10000000000 * 1 * 3.3)"
    by (intro mult_left_mono) simp_all
  then show ?thesis unfolding s by (simp add: mult.assoc power2_eq_square)
qed

lemma exp_minus_9: "1 / 19683 \<le> exp (- 9 :: real)"
proof -
  have "exp (9 :: real) = exp (of_nat 9 * 1)" by simp
  also have "\<dots> = exp 1 ^ 9" by (rule exp_of_nat_mult)
  also have "\<dots> \<le> 3 ^ 9" using exp_le by (intro power_mono) simp_all
  finally have "exp (9 :: real) \<le> 19683" by simp
  then have "inverse 19683 \<le> inverse (exp (9 :: real))" by (intro le_imp_inverse_le) simp_all
  then show ?thesis by (simp add: exp_minus inverse_eq_divide)
qed

lemma unit_spectrum_lower:
  assumes "599 / 100 < w" and "w \<le> 6" and "1 \<le> Tp"
  shows "1 / 2000000 \<le> unit_spectrum Tp 3.3 9.81 w"
proof -
  define omega_p where "omega_p = 2 * pi / Tp"
  define sigma :: real where "sigma = (if w \<le> omega_p then 0.07 else 0.09)"
  define exp1 where "exp1 = js_exp (- 1.25 * (omega_p / w) ^ 4)"
  define exp2 where "exp2 = js_exp (- ((w - omega_p) ^ 2) / (2 * (sigma * omega_p) ^ 2))"
  have s: "unit_spectrum Tp 3.3 9.81 w = 9.81 ^ 2 * (w powi (-5)) * exp1 * (3.3 powr exp2)"
    unfolding unit_spectrum_def Let_def omega_p_def sigma_def exp1_def exp2_def by (rule refl)
  have w0: "0 < w" using assms by simp
  have "w ^ 5 \<le> 6 ^ 5" using assms w0 by (intro power_mono) simp_all
  then have "inverse ((6 :: real) ^ 5) \<le> inverse (w ^ 5)" using w0 by (intro le_imp_inverse_le) simp_all
  then have p: "1 / 7776 \<le> w powi (-5)" by (simp add: power_int_minus inverse_eq_divide)
  have op0: "0 \<le> omega_p" unfolding omega_p_def using assms(3) by simp
  have "omega_p \<le> 2 * pi" unfolding omega_p_def using assms(3) by (simp add: field_simps)
  then have op: "omega_p \<le> 8" using pi_less_4 by linarith
  have "omega_p / w \<le> 8 / 5" using op op0 assms(1) w0 by (simp add: field_simps)
  moreover have "0 \<le> omega_p / w" using op0 w0 by simp
  ultimately have "(omega_p / w) ^ 4 \<le> (8 / 5) ^ 4" by (intro power_mono)
  moreover have "((8 / 5) ^ 4 :: real) = 4096 / 625" by (simp add: power_divide)
  ultimately have "(omega_p / w) ^ 4 \<le> 4096 / 625" by simp
  then have m9: "- 9 \<le> - 1.25 * (omega_p / w) ^ 4" by simp
  then have "- 746 < - 1.25 * (omega_p / w) ^ 4" by linarith
  then have x: "exp1 = exp (- 1.25 * (omega_p / w) ^ 4)" unfolding exp1_def by (rule js_exp_exact)
  have "exp (- 9) \<le> exp1" unfolding x using m9 by (simp only: exp_le_cancel_iff)
  then have e1: "1 / 19683 \<le> exp1" using exp_minus_9 by linarith
  have "0 \<le> exp2" unfolding exp2_def by (rule js_exp_nonneg)
  then have g: "1 \<le> (3.3 :: real) powr exp2" by (intro ge_one_powr_ge_zero) simp_all
  have p0: "0 \<le> w powi (-5)" using w0 by simp
  have a: "(1 / 7776) * (1 / 19683) \<le> w powi (-5) * exp1"
    using p e1 p0 by (rule mult_mono) simp
  have a0: "0 \<le> w powi (-5) * exp1" using p0 unfolding exp1_def by (simp add: js_exp_nonneg)
  define P where "P = w powi (-5) * exp1 * (3.3 powr exp2)"
  have c: "(1 / 7776) * (1 / 19683) * 1 \<le> P"
    unfolding P_def using a g a0 by (rule mult_mono) simp
  have s': "unit_spectrum Tp 3.3 9.81 w = 9.81 ^ 2 * P"
    unfolding s P_def by (simp only: mult.assoc)
  have "9.81 ^ 2 * ((1 / 7776) * (1 / 19683) * 1) \<le> 9.81 ^ 2 * P"
    using c by (rule mult_left_mono) simp
  moreover have "(1 / 2000000 :: real) \<le> 9.81 ^ 2 * ((1 / 7776) * (1 / 19683) * 1)"
    by (simp add: power2_eq_square)
  ultimately show ?thesis unfolding s' by (rule order_trans [rotated])
qed

lemma trapezoid_upper:
  assumes "sorted_wrt (<) x" and "length y = length x" and "\<forall>v \<in> set y. 0 \<le> v \<and> v \<le> B"
    and "1 \<le> length x"
  shows "trapezoidal_integral x y \<le> B * (x ! (length x - 1) - x ! 0)"
proof -
  have t: "(y ! i + y ! (i - 1)) / 2 * (x ! i - x ! (i - 1)) \<le> B * (x ! i - x ! (i - 1))"
    if "i \<in> {1..<length x}" for i
  proof -
    have i: "1 \<le> i" "i < length x" using that by auto
    have "x ! (i - 1) < x ! i" using assms(1) i by (simp add: sorted_wrt_iff_nth_less)
    then have d: "0 \<le> x ! i - x ! (i - 1)" by simp
    have "y ! (i - 1) \<le> B" "y ! i \<le> B" using assms(2,3) i by simp_all
    then have "(y ! i + y ! (i - 1)) / 2 \<le> B" by simp
    then show ?thesis using d by (rule mult_right_mono)
  qed
  have "trapezoidal_integral x y \<le> (\<Sum>i = 1..<length x. B * (x ! i - x ! (i - 1)))"
    unfolding trapezoidal_integral_def using t by (rule sum_mono)
  also have "\<dots> = B * (\<Sum>i = 1..<length x. x ! i - x ! (i - 1))"
    by (rule sum_distrib_left [symmetric])
  also have "(\<Sum>i = 1..<length x. x ! i - x ! (i - 1)) = (\<Sum>i = 0..<length x - 1. x ! Suc i - x ! i)"
    by (rule sum.reindex_bij_witness [where i = "\<lambda>i. Suc i" and j = "\<lambda>i. i - 1"]) (use assms(4) in auto)
  also have "\<dots> = x ! (length x - 1) - x ! 0"
    by (rule sum_Suc_diff') simp
  finally show ?thesis .
qed

lemma trapezoid_lower:
  assumes "sorted_wrt (<) x" and "length y = length x" and "\<forall>v \<in> set y. 0 \<le> v"
    and "2 \<le> length x"
  shows "(y ! (length x - 1) + y ! (length x - 2)) / 2 * (x ! (length x - 1) - x ! (length x - 2))
           \<le> trapezoidal_integral x y"
proof -
  define f where "f = (\<lambda>i. (y ! i + y ! (i - 1)) / 2 * (x ! i - x ! (i - 1)))"
  have nn: "0 \<le> f i" if "i \<in> {1..<length x} - {length x - 1}" for i
  proof -
    have i: "1 \<le> i" "i < length x" using that by auto
    have "x ! (i - 1) < x ! i" using assms(1) i by (simp add: sorted_wrt_iff_nth_less)
    moreover have "0 \<le> y ! (i - 1)" "0 \<le> y ! i" using assms(2,3) i by simp_all
    ultimately show ?thesis unfolding f_def by simp
  qed
  have m: "length x - 1 \<in> {1..<length x}" using assms(4) by auto
  have "f (length x - 1) \<le> sum f {1..<length x}"
    by (rule member_le_sum [OF m nn finite_atLeastLessThan])
  moreover have "length x - 1 - 1 = length x - 2" by simp
  ultimately show ?thesis unfolding trapezoidal_integral_def f_def by simp
qed

lemma unit_m0_upper: "unit_m0 Tp 3.3 9.81 \<le> 19054747800000"
proof -
  let ?y = "map (unit_spectrum Tp 3.3 9.81) omega_grid"
  have l: "length ?y = length omega_grid" by simp
  have b: "\<forall>v \<in> set ?y. 0 \<le> v \<and> v \<le> 3175791300000"
  proof
    fix v assume "v \<in> set ?y"
    then obtain w where w: "w \<in> set omega_grid" "v = unit_spectrum Tp 3.3 9.81 w"
      by auto
    have "1 / 100 \<le> w" using w(1) omega_from_ge [of w "1 / 100"] unfolding omega_grid_def by simp
    then have "v \<le> 3175791300000" unfolding w(2) by (rule unit_spectrum_upper)
    moreover have "0 \<le> v" unfolding w(2) using omega_grid_pos [OF w(1)] by (rule unit_spectrum_nonneg)
    ultimately show "0 \<le> v \<and> v \<le> 3175791300000" by simp
  qed
  have n1: "1 \<le> length omega_grid" using omega_grid_length by simp
  have u: "unit_m0 Tp 3.3 9.81
        \<le> 3175791300000 * (omega_grid ! (length omega_grid - 1) - omega_grid ! 0)"
    unfolding unit_m0_def using omega_grid_sorted l b n1 by (rule trapezoid_upper)
  have "0 < length omega_grid" using omega_grid_length by linarith
  then have "omega_grid ! 0 \<in> set omega_grid" by (rule nth_mem)
  then have "0 < omega_grid ! 0" by (rule omega_grid_pos)
  then have "omega_grid ! (length omega_grid - 1) - omega_grid ! 0 \<le> 6"
    using omega_grid_last(4) by simp
  then have "3175791300000 * (omega_grid ! (length omega_grid - 1) - omega_grid ! 0)
             \<le> 3175791300000 * 6"
    by (rule mult_left_mono) simp
  with u show ?thesis by simp
qed

lemma unit_m0_lower:
  assumes "1 \<le> Tp"
  shows "1 / 400000000 \<le> unit_m0 Tp 3.3 9.81"
proof -
  let ?y = "map (unit_spectrum Tp 3.3 9.81) omega_grid"
  let ?n = "length omega_grid"
  have l: "length ?y = ?n" by simp
  have p: "0 \<le> ?y ! i" if "i < ?n" for i
  proof -
    have "omega_grid ! i \<in> set omega_grid" using that by simp
    then have "0 < omega_grid ! i" by (rule omega_grid_pos)
    then have "0 \<le> unit_spectrum Tp 3.3 9.81 (omega_grid ! i)" by (rule unit_spectrum_nonneg)
    then show ?thesis using that by simp
  qed
  have b: "\<forall>v \<in> set ?y. 0 \<le> v"
    using p l by (auto simp: in_set_conv_nth)
  have n2: "2 \<le> ?n" by (rule omega_grid_length)
  have t: "(?y ! (?n - 1) + ?y ! (?n - 2)) / 2 * (omega_grid ! (?n - 1) - omega_grid ! (?n - 2))
           \<le> unit_m0 Tp 3.3 9.81"
    unfolding unit_m0_def using omega_grid_sorted l b n2 by (rule trapezoid_lower)
  have "?y ! (?n - 1) = unit_spectrum Tp 3.3 9.81 (omega_grid ! (?n - 1))"
    using n2 by simp
  then have y1: "1 / 2000000 \<le> ?y ! (?n - 1)"
    using unit_spectrum_lower [OF omega_grid_last(3,4) assms] by simp
  have y0: "0 \<le> ?y ! (?n - 2)" using n2 by (intro p) simp
  define a where "a = ?y ! (?n - 2)"
  define b where "b = ?y ! (?n - 1)"
  define M where "M = unit_m0 Tp 3.3 9.81"
  have t': "(b + a) / 2 * (1 / 100) \<le> M"
    using t unfolding omega_grid_last(2) a_def b_def M_def .
  have "0 \<le> a" "1 / 2000000 \<le> b" using y0 y1 unfolding a_def b_def by blast+
  moreover have "(a + b) / 200 \<le> M" using t' by simp
  ultimately have "1 / 400000000 \<le> M" by argo
  then show ?thesis unfolding M_def .
qed

lemma first_estimate_bounds:
  assumes "1 \<le> Tp"
  shows "1 / 100000 \<le> 4 * sqrt (0.0081 * unit_m0 Tp 3.3 9.81)"
    and "4 * sqrt (0.0081 * unit_m0 Tp 3.3 9.81) \<le> 1600000"
proof -
  define M where "M = unit_m0 Tp 3.3 9.81"
  have m: "1 / 400000000 \<le> M" "M \<le> 19054747800000"
    unfolding M_def using unit_m0_lower [OF assms] unit_m0_upper by blast+
  have "((1 / 400000) ^ 2 :: real) = 1 / 160000000000" by (simp add: power_divide)
  then have lo: "(1 / 400000) ^ 2 \<le> 0.0081 * M" using m(1) by simp
  have "sqrt ((1 / 400000) ^ 2) \<le> sqrt (0.0081 * M)"
    using lo by (simp only: real_sqrt_le_iff)
  then have "1 / 400000 \<le> sqrt (0.0081 * M)" by simp
  then show "1 / 100000 \<le> 4 * sqrt (0.0081 * unit_m0 Tp 3.3 9.81)"
    unfolding M_def by simp
  have hi: "0.0081 * M \<le> 400000 ^ 2"
    using m(2) by simp
  have "sqrt (0.0081 * M) \<le> sqrt (400000 ^ 2)"
    using hi by (simp only: real_sqrt_le_iff)
  then have "sqrt (0.0081 * M) \<le> 400000" by simp
  then show "4 * sqrt (0.0081 * unit_m0 Tp 3.3 9.81) \<le> 1600000"
    unfolding M_def by simp
qed

text \<open>Every sea state with \<open>Hs\<close> from 0.001 to 1000 and \<open>Tp\<close> of at least 1 is in the
  range from which the loop reaches its tolerance.\<close>

lemma sea_state_in_range:
  assumes "1 / 1000 \<le> Hs" and "Hs \<le> 1000" and "1 \<le> Tp"
  shows "ratio_lower < Hs / (4 * sqrt (0.0081 * unit_m0 Tp 3.3 9.81))"
    and "Hs / (4 * sqrt (0.0081 * unit_m0 Tp 3.3 9.81)) < ratio_upper"
proof -
  define E where "E = 4 * sqrt (0.0081 * unit_m0 Tp 3.3 9.81)"
  have e: "1 / 100000 \<le> E" "E \<le> 1600000"
    unfolding E_def using first_estimate_bounds [OF assms(3)] by blast+
  have e0: "0 < E" using e(1) by simp
  have "1 / 1600000000 \<le> Hs / E"
  proof -
    have "E / 1600000000 \<le> 1 / 1000" using e(2) by simp
    then have "E / 1600000000 \<le> Hs" using assms(1) by simp
    then show ?thesis using e0 by (simp add: field_simps)
  qed
  then show "ratio_lower < Hs / (4 * sqrt (0.0081 * unit_m0 Tp 3.3 9.81))"
    unfolding E_def [symmetric] using ratio_lower_small by linarith
  have "Hs / E \<le> 100000000"
  proof -
    have "1000 \<le> 100000000 * E" using e(1) by simp
    then have "Hs \<le> 100000000 * E" using assms(2) by simp
    then show ?thesis using e0 by (simp add: field_simps)
  qed
  then show "Hs / (4 * sqrt (0.0081 * unit_m0 Tp 3.3 9.81)) < ratio_upper"
    unfolding E_def [symmetric] using ratio_upper_large by linarith
qed

lemma spectrum_m0_eq:
  "spectrum_m0 (calculateSpectrum Hs Tp)
     = trapezoidalIntegration omega_grid
         (computeSpectrumWithAlpha omega_grid
            (calculateAlphaIterative omega_grid Hs Tp 3.3 9.81) Tp 3.3 9.81)"
  by (simp add: spectrum_m0_def calculateSpectrum_def computeSpectrumWithAlpha_def Let_def comp_def)

text \<open>For a peak period of at most 0.2 the first exponential underflows over the whole
  grid, and the spectrum for alpha = 1 is zero.\<close>

lemma pi_ge_three: "3 \<le> pi"
proof -
  have "sin (pi / 6) \<le> pi / 6" by (rule sin_x_le_x) simp
  then show ?thesis by (simp add: sin_30)
qed

lemma unit_spectrum_underflow:
  assumes "0 < Tp" and "Tp \<le> 1 / 5" and "0 < w" and "w \<le> 6"
  shows "unit_spectrum Tp gamma g w = 0"
proof -
  define omega_p where "omega_p = 2 * pi / Tp"
  have "2 * pi * 5 \<le> 2 * pi / Tp"
  proof -
    have "2 * pi * 5 * Tp \<le> 2 * pi * 1" using assms(1,2) by simp
    then show ?thesis using assms(1) by (simp add: field_simps)
  qed
  then have op: "30 \<le> omega_p" unfolding omega_p_def using pi_ge_three by linarith
  have "5 * w \<le> omega_p" using op assms(4) by linarith
  then have "5 \<le> omega_p / w" using assms(3) by (simp add: field_simps)
  then have "5 ^ 4 \<le> (omega_p / w) ^ 4" by (intro power_mono) simp_all
  then have "- 1.25 * (omega_p / w) ^ 4 \<le> - 746" by simp
  then have "js_exp (- 1.25 * (omega_p / w) ^ 4) = 0" by (rule js_exp_underflow)
  then show ?thesis unfolding unit_spectrum_def Let_def omega_p_def [symmetric] by simp
qed

lemma unit_m0_underflow:
  assumes "0 < Tp" and "Tp \<le> 1 / 5"
  shows "unit_m0 Tp gamma g = 0"
proof -
  have "unit_spectrum Tp gamma g w = 0" if "w \<in> set omega_grid" for w
  proof -
    have "0 < w" using that by (rule omega_grid_pos)
    moreover have "w \<le> 6" using that unfolding omega_grid_def by (rule omega_from_le_6)
    ultimately show ?thesis using assms by (intro unit_spectrum_underflow)
  qed
  then have z: "map (unit_spectrum Tp gamma g) omega_grid ! i = 0" if "i < length omega_grid" for i
    using that by simp
  have "(map (unit_spectrum Tp gamma g) omega_grid ! i
          + map (unit_spectrum Tp gamma g) omega_grid ! (i - 1)) / 2
        * (omega_grid ! i - omega_grid ! (i - 1)) = 0"
    if "i \<in> {1..<length omega_grid}" for i
  proof -
    have "i < length omega_grid" "i - 1 < length omega_grid" using that by auto
    then show ?thesis by (simp only: z) simp
  qed
  then show ?thesis unfolding unit_m0_def trapezoidal_integral_def by (rule sum.neutral [OF ballI])
qed

lemma updates_None:
  assumes "2 \<le> length omega" and "ratio_of omega H Tp gamma g a = None"
  shows "ratio_of omega H Tp gamma g ((next_alpha omega H Tp gamma g ^^ k) a) = None \<and>
         (next_alpha omega H Tp gamma g ^^ Suc k) a = None"
proof (induction k)
  case 0
  show ?case using assms(2) by (cases a) (simp_all add: next_alpha_def num_mul_def)
next
  case (Suc k)
  then have n: "(next_alpha omega H Tp gamma g ^^ Suc k) a = None" by blast
  have "ratio_of omega H Tp gamma g ((next_alpha omega H Tp gamma g ^^ Suc k) a) = None"
    unfolding n by (rule ratio_of_None [OF assms(1)])
  moreover have "(next_alpha omega H Tp gamma g ^^ Suc (Suc k)) a = None"
    using n by (simp add: next_alpha_None)
  ultimately show ?case by blast
qed

lemma loop_underflow:
  assumes "0 < Tp" and "Tp \<le> 1 / 5"
  shows "(\<forall>k < 50. \<not> within_tolerance (ratio_of omega_grid H Tp gamma g
                      (alpha_after omega_grid H Tp gamma g k)))"
    and "calculateAlphaIterative omega_grid H Tp gamma g = None"
    and "alpha_after omega_grid H Tp gamma g 50 = None"
proof -
  have t: "Tp \<noteq> 0" using assms(1) by simp
  have r0: "ratio_of omega_grid H Tp gamma g (Some 0.0081) = None"
    using t unit_m0_underflow [OF assms] by (rule ratio_of_zero_moment)
  note u = updates_None [OF omega_grid_length r0]
  have r: "ratio_of omega_grid H Tp gamma g (alpha_after omega_grid H Tp gamma g k) = None" for k
    unfolding alpha_after_def using u [of k] by blast
  show a: "\<forall>k < 50. \<not> within_tolerance (ratio_of omega_grid H Tp gamma g
                      (alpha_after omega_grid H Tp gamma g k))"
    unfolding r by (simp add: within_tolerance_def)
  have m: "maxIter = Suc 49" by (simp add: maxIter_def)
  show e: "alpha_after omega_grid H Tp gamma g 50 = None"
    unfolding alpha_after_def using u [of 49] by simp
  have "calculateAlphaIterative omega_grid H Tp gamma g
        = (next_alpha omega_grid H Tp gamma g ^^ maxIter) (Some 0.0081)"
    unfolding calculateAlphaIterative_def
    by (rule loop_exhausted) (use a in \<open>simp add: maxIter_def alpha_after_def\<close>)
  then show "calculateAlphaIterative omega_grid H Tp gamma g = None"
    using e unfolding alpha_after_def maxIter_def by simp
qed

lemma box_converges:
  assumes "1 / 1000 \<le> Hs" and "Hs \<le> 1000" and "1 \<le> Tp"
  shows "\<exists>k alpha m0. k < 50 \<and>
           calculateAlphaIterative omega_grid Hs Tp 3.3 9.81 = Some alpha \<and>
           alpha_after omega_grid Hs Tp 3.3 9.81 k = Some alpha \<and>
           within_tolerance (ratio_of omega_grid Hs Tp 3.3 9.81 (Some alpha)) \<and>
           0 < alpha \<and>
           spectrum_m0 (calculateSpectrum Hs Tp) = Some m0 \<and> 0 < m0 \<and>
           \<bar>Hs / (4 * sqrt m0) - 1\<bar> < 1 / 1000 \<and>
           1000 / 1001 < 4 * sqrt m0 / Hs \<and> 4 * sqrt m0 / Hs < 1000 / 999"
proof -
  define U where "U = unit_m0 Tp 3.3 9.81"
  have t: "Tp \<noteq> 0" using assms(3) by simp
  have h: "0 < Hs" using assms(1) by simp
  have u: "0 < U" unfolding U_def using unit_m0_lower [OF assms(3)] by simp
  obtain k a where ka: "k < 50" "0 < a"
      "calculateAlphaIterative omega_grid Hs Tp 3.3 9.81 = Some a"
      "alpha_after omega_grid Hs Tp 3.3 9.81 k = Some a"
      "\<bar>Hs / (4 * sqrt (a * U)) - 1\<bar> < tolerance"
    using loop_converges [OF t h u [unfolded U_def] sea_state_in_range [OF assms]]
    unfolding U_def by blast
  define E where "E = 4 * sqrt (a * U)"
  have m0: "0 < a * U" using ka(2) u by simp
  have r: "ratio_of omega_grid Hs Tp 3.3 9.81 (Some a) = Some (Hs / E)"
    unfolding E_def U_def using m0 [unfolded U_def] by (rule ratio_of_Some [OF t])
  have c: "\<bar>Hs / E - 1\<bar> < 1 / 1000" using ka(5) unfolding E_def tolerance_def .
  then have w: "within_tolerance (ratio_of omega_grid Hs Tp 3.3 9.81 (Some a))"
    unfolding r within_tolerance_def tolerance_def by simp
  have m: "spectrum_m0 (calculateSpectrum Hs Tp) = Some (a * U)"
    unfolding spectrum_m0_eq ka(3) U_def by (rule m0_Some [OF t])
  have e0: "0 < E" unfolding E_def using m0 by simp
  have rr: "999 / 1000 < Hs / E" "Hs / E < 1001 / 1000" using c by linarith+
  have lo: "1000 / 1001 < E / Hs"
  proof -
    have "Hs * 1000 < 1001 * E" using rr(2) e0 by (simp add: field_simps)
    then show ?thesis using h by (simp add: field_simps)
  qed
  have hi: "E / Hs < 1000 / 999"
  proof -
    have "999 * E < Hs * 1000" using rr(1) e0 by (simp add: field_simps)
    then show ?thesis using h by (simp add: field_simps)
  qed
  show ?thesis
    using ka(1,3,4) w ka(2) m m0 c lo hi unfolding E_def by blast
qed

lemma underflow_result:
  assumes "0 < Tp" and "Tp \<le> 1 / 5"
  shows "(\<forall>j < 50. \<not> within_tolerance (ratio_of omega_grid Hs Tp 3.3 9.81
                      (alpha_after omega_grid Hs Tp 3.3 9.81 j))) \<and>
         calculateAlphaIterative omega_grid Hs Tp 3.3 9.81 = None \<and>
         alpha_after omega_grid Hs Tp 3.3 9.81 50 = None \<and>
         spectrum_m0 (calculateSpectrum Hs Tp) = None"
proof -
  note l = loop_underflow [OF assms, of Hs "3.3" "9.81"]
  have "spectrum_m0 (calculateSpectrum Hs Tp) = None"
    unfolding spectrum_m0_eq l(2) by (rule m0_None [OF omega_grid_length])
  with l show ?thesis by blast
qed

lemma returns_last_update:
  assumes "\<forall>j < 50. \<not> within_tolerance (ratio_of omega Hs Tp gamma g (alpha_after omega Hs Tp gamma g j))"
  shows "calculateAlphaIterative omega Hs Tp gamma g = alpha_after omega Hs Tp gamma g 50"
proof -
  have "alpha_loop maxIter omega Hs Tp gamma g (Some 0.0081)
        = (next_alpha omega Hs Tp gamma g ^^ maxIter) (Some 0.0081)"
    by (rule loop_exhausted) (use assms in \<open>simp add: maxIter_def alpha_after_def\<close>)
  then show ?thesis unfolding calculateAlphaIterative_def alpha_after_def maxIter_def .
qed

lemma returns_first_pass:
  assumes "k < 50"
    and "within_tolerance (ratio_of omega Hs Tp gamma g (alpha_after omega Hs Tp gamma g k))"
    and "\<forall>j < k. \<not> within_tolerance (ratio_of omega Hs Tp gamma g (alpha_after omega Hs Tp gamma g j))"
  shows "calculateAlphaIterative omega Hs Tp gamma g = alpha_after omega Hs Tp gamma g k"
proof -
  have "k < maxIter" using assms(1) by (simp add: maxIter_def)
  then show ?thesis unfolding calculateAlphaIterative_def alpha_after_def
    using assms(2,3) [unfolded alpha_after_def] by (rule loop_stops)
qed

text \<open>The first estimate for \<open>Tp = 10\<close>, and the loop from a target that is a given
  multiple of it.\<close>

lemma first_estimate_10:
  shows "0 < unit_m0 10 3.3 9.81"
    and "estimatedHs_of omega_grid (Some 0.0081) 10 3.3 9.81
         = Some (4 * sqrt (0.0081 * unit_m0 10 3.3 9.81))"
    and "0 < 4 * sqrt (0.0081 * unit_m0 10 3.3 9.81)"
proof -
  have "(1::real) \<le> 10" by simp
  from unit_m0_lower [OF this] show u: "0 < unit_m0 10 3.3 9.81" by simp
  then have "0 \<le> 0.0081 * unit_m0 10 3.3 9.81" by simp
  then show "estimatedHs_of omega_grid (Some 0.0081) 10 3.3 9.81
         = Some (4 * sqrt (0.0081 * unit_m0 10 3.3 9.81))"
    by (intro estimatedHs_Some) simp_all
  show "0 < 4 * sqrt (0.0081 * unit_m0 10 3.3 9.81)" using u by simp
qed

lemma first_ratio_10:
  assumes "H = c * (4 * sqrt (0.0081 * unit_m0 10 3.3 9.81))"
  shows "ratio_of omega_grid H 10 3.3 9.81 (alpha_after omega_grid H 10 3.3 9.81 0) = Some c"
proof -
  have "0 < 0.0081 * unit_m0 10 3.3 9.81" using first_estimate_10(1) by simp
  then have "ratio_of omega_grid H 10 3.3 9.81 (Some 0.0081)
             = Some (H / (4 * sqrt (0.0081 * unit_m0 10 3.3 9.81)))"
    by (intro ratio_of_Some) simp_all
  also have "H / (4 * sqrt (0.0081 * unit_m0 10 3.3 9.81)) = c"
    unfolding assms using first_estimate_10(3) by simp
  finally show ?thesis unfolding alpha_after_def by simp
qed

lemma second_ratio_10:
  assumes "H = c * (4 * sqrt (0.0081 * unit_m0 10 3.3 9.81))" and "0 < c"
  shows "alpha_after omega_grid H 10 3.3 9.81 1 = Some (0.0081 * c)"
    and "ratio_of omega_grid H 10 3.3 9.81 (alpha_after omega_grid H 10 3.3 9.81 1) = Some (sqrt c)"
proof -
  define U where "U = unit_m0 10 3.3 9.81"
  have u: "0 < U" unfolding U_def by (rule first_estimate_10(1))
  have h: "0 < H" unfolding assms(1) using assms(2) first_estimate_10(3) by simp
  have a: "(0::real) < 0.0081" by simp
  have c: "c = H / (4 * sqrt (0.0081 * U))"
    unfolding assms(1) U_def using first_estimate_10(3) by simp
  note r = ratio_update [OF a h u c]
  have "next_alpha omega_grid H 10 3.3 9.81 (Some 0.0081)
        = Some (0.0081 * (H / (4 * sqrt (0.0081 * unit_m0 10 3.3 9.81))))"
    by (rule next_alpha_Some) (use first_estimate_10(1) in simp_all)
  then show n: "alpha_after omega_grid H 10 3.3 9.81 1 = Some (0.0081 * c)"
    unfolding alpha_after_def c U_def by simp
  have "0 < 0.0081 * c * unit_m0 10 3.3 9.81" using r(2) u unfolding U_def by simp
  then have "ratio_of omega_grid H 10 3.3 9.81 (Some (0.0081 * c))
        = Some (H / (4 * sqrt (0.0081 * c * unit_m0 10 3.3 9.81)))"
    by (intro ratio_of_Some) simp_all
  then show "ratio_of omega_grid H 10 3.3 9.81 (alpha_after omega_grid H 10 3.3 9.81 1) = Some (sqrt c)"
    unfolding n using r(3) unfolding U_def by simp
qed

lemma Hs_near_tolerance_eq:
  "Hs_near_tolerance = 0.9990005 * (4 * sqrt (0.0081 * unit_m0 10 3.3 9.81))"
  unfolding Hs_near_tolerance_def first_estimate_10(2) by simp

lemma Hs_one_update_eq:
  "Hs_one_update = 1.0015 * (4 * sqrt (0.0081 * unit_m0 10 3.3 9.81))"
  unfolding Hs_one_update_def first_estimate_10(2) by simp

lemma sqrt_within: "\<bar>sqrt 1.0015 - 1\<bar> < (1 / 1000 :: real)"
proof -
  have "(1::real) < 1.0015" by simp
  then have lo: "1 < sqrt (1.0015 :: real)" by (simp only: real_sqrt_gt_1_iff)
  have "(1.0015 :: real) < 1.001 ^ 2" by (simp add: power2_eq_square)
  then have "sqrt (1.0015 :: real) < sqrt (1.001 ^ 2)" by (simp only: real_sqrt_less_iff)
  then have hi: "sqrt (1.0015 :: real) < 1001 / 1000" by simp
  define s :: real where "s = sqrt 1.0015"
  have "1 < s" "s < 1001 / 1000" using lo hi unfolding s_def by blast+
  then have "\<bar>s - 1\<bar> < 1 / 1000" by linarith
  then show ?thesis unfolding s_def .
qed

text \<open>
  Claim C1, as amended. For every \<open>Hs\<close> from 0.001 to 1000 and every \<open>Tp\<close> of at
  least 1, one of the 50 checks of the loop passes: the function returns a positive
  alpha, that of the passing check, and the spectrum built with it over the grid has
  a zeroth moment \<open>m0 > 0\<close> with \<open>\<bar>Hs / (4 sqrt m0) - 1\<bar> < 0.001\<close>, so that
  \<open>4 sqrt m0 / Hs\<close> lies strictly between 1000/1001 and 1000/999. For every \<open>Hs\<close>
  and \<open>Tp\<close>, when none of the 50 checks passes the value returned is the alpha after
  the 50th update, and otherwise it is the alpha of the first check that passes. For
  every \<open>Hs\<close> and every \<open>Tp\<close> above 0 and up to 0.2 the spectrum underflows to zero,
  no check passes, and neither the value returned, which is the alpha after the 50th
  update, nor the zeroth moment of the spectrum is a finite number. The function
  returns alpha alone: it signals nothing.
\<close>

theorem calibration_meets_tolerance:
  "(1 / 1000 \<le> Hs \<and> Hs \<le> 1000 \<and> 1 \<le> Tp
      \<longrightarrow> (\<exists>k alpha m0. k < 50 \<and>
             calculateAlphaIterative omega_grid Hs Tp 3.3 9.81 = Some alpha \<and>
             alpha_after omega_grid Hs Tp 3.3 9.81 k = Some alpha \<and>
             within_tolerance (ratio_of omega_grid Hs Tp 3.3 9.81 (Some alpha)) \<and>
             0 < alpha \<and>
             spectrum_m0 (calculateSpectrum Hs Tp) = Some m0 \<and> 0 < m0 \<and>
             \<bar>Hs / (4 * sqrt m0) - 1\<bar> < 1 / 1000 \<and>
             1000 / 1001 < 4 * sqrt m0 / Hs \<and> 4 * sqrt m0 / Hs < 1000 / 999)) \<and>
   ((\<forall>j < 50. \<not> within_tolerance (ratio_of omega_grid Hs Tp 3.3 9.81
                       (alpha_after omega_grid Hs Tp 3.3 9.81 j)))
      \<longrightarrow> calculateAlphaIterative omega_grid Hs Tp 3.3 9.81
            = alpha_after omega_grid Hs Tp 3.3 9.81 50) \<and>
   (n < 50 \<and>
    within_tolerance (ratio_of omega_grid Hs Tp 3.3 9.81 (alpha_after omega_grid Hs Tp 3.3 9.81 n)) \<and>
    (\<forall>j < n. \<not> within_tolerance (ratio_of omega_grid Hs Tp 3.3 9.81
                      (alpha_after omega_grid Hs Tp 3.3 9.81 j)))
      \<longrightarrow> calculateAlphaIterative omega_grid Hs Tp 3.3 9.81
            = alpha_after omega_grid Hs Tp 3.3 9.81 n) \<and>
   (0 < Tp \<and> Tp \<le> 1 / 5
      \<longrightarrow> (\<forall>j < 50. \<not> within_tolerance (ratio_of omega_grid Hs Tp 3.3 9.81
                          (alpha_after omega_grid Hs Tp 3.3 9.81 j))) \<and>
          calculateAlphaIterative omega_grid Hs Tp 3.3 9.81 = None \<and>
          alpha_after omega_grid Hs Tp 3.3 9.81 50 = None \<and>
          spectrum_m0 (calculateSpectrum Hs Tp) = None)"
  using box_converges [of Hs Tp] returns_last_update [of omega_grid Hs Tp "3.3" "9.81"]
    returns_first_pass [of n omega_grid Hs Tp "3.3" "9.81"] underflow_result [of Tp Hs]
  by blast

theorem calibration_meets_tolerance_witness:
  "(\<exists>k alpha m0. k < 50 \<and>
      calculateAlphaIterative omega_grid 2 10 3.3 9.81 = Some alpha \<and>
      alpha_after omega_grid 2 10 3.3 9.81 k = Some alpha \<and> 0 < alpha \<and>
      spectrum_m0 (calculateSpectrum 2 10) = Some m0 \<and> 0 < m0 \<and>
      \<bar>2 / (4 * sqrt m0) - 1\<bar> < 1 / 1000 \<and>
      1000 / 1001 < 4 * sqrt m0 / 2 \<and> 4 * sqrt m0 / 2 < 1000 / 999) \<and>
   calculateAlphaIterative omega_grid 2 (1 / 5) 3.3 9.81 = None \<and>
   alpha_after omega_grid 2 (1 / 5) 3.3 9.81 50 = None \<and>
   spectrum_m0 (calculateSpectrum 2 (1 / 5)) = None \<and>
   \<not> within_tolerance (ratio_of omega_grid Hs_one_update 10 3.3 9.81
                        (alpha_after omega_grid Hs_one_update 10 3.3 9.81 0)) \<and>
   within_tolerance (ratio_of omega_grid Hs_one_update 10 3.3 9.81
                      (alpha_after omega_grid Hs_one_update 10 3.3 9.81 1)) \<and>
   calculateAlphaIterative omega_grid Hs_one_update 10 3.3 9.81 = Some (0.0081 * 1.0015)"
proof -
  note box = calibration_meets_tolerance [of 2 10 0]
  have b: "\<exists>k alpha m0. k < 50 \<and>
      calculateAlphaIterative omega_grid 2 10 3.3 9.81 = Some alpha \<and>
      alpha_after omega_grid 2 10 3.3 9.81 k = Some alpha \<and> 0 < alpha \<and>
      spectrum_m0 (calculateSpectrum 2 10) = Some m0 \<and> 0 < m0 \<and>
      \<bar>2 / (4 * sqrt m0) - 1\<bar> < 1 / 1000 \<and>
      1000 / 1001 < 4 * sqrt m0 / 2 \<and> 4 * sqrt m0 / 2 < 1000 / 999"
  proof -
    have "(1 / 1000 :: real) \<le> 2 \<and> (2::real) \<le> 1000 \<and> (1::real) \<le> 10" by simp
    with box obtain k alpha m0 where "k < 50"
      "calculateAlphaIterative omega_grid 2 10 3.3 9.81 = Some alpha"
      "alpha_after omega_grid 2 10 3.3 9.81 k = Some alpha" "0 < alpha"
      "spectrum_m0 (calculateSpectrum 2 10) = Some m0" "0 < m0"
      "\<bar>2 / (4 * sqrt m0) - 1\<bar> < 1 / 1000"
      "1000 / 1001 < 4 * sqrt m0 / 2" "4 * sqrt m0 / 2 < 1000 / 999"
      by blast
    then show ?thesis by blast
  qed
  note low = calibration_meets_tolerance [of 2 "1 / 5" 0]
  have "(0::real) < 1 / 5 \<and> (1 / 5 :: real) \<le> 1 / 5" by simp
  with low have u: "\<forall>j < 50. \<not> within_tolerance (ratio_of omega_grid 2 (1 / 5) 3.3 9.81
                          (alpha_after omega_grid 2 (1 / 5) 3.3 9.81 j))"
      "calculateAlphaIterative omega_grid 2 (1 / 5) 3.3 9.81 = None"
      "spectrum_m0 (calculateSpectrum 2 (1 / 5)) = None"
    by blast+
  have l: "calculateAlphaIterative omega_grid 2 (1 / 5) 3.3 9.81
        = alpha_after omega_grid 2 (1 / 5) 3.3 9.81 50"
    using low u(1) by blast
  then have e: "alpha_after omega_grid 2 (1 / 5) 3.3 9.81 50 = None" using u(2) by simp
  note one = calibration_meets_tolerance [of Hs_one_update 10 1]
  have c: "(0::real) < 1.0015" by simp
  have r0: "ratio_of omega_grid Hs_one_update 10 3.3 9.81
              (alpha_after omega_grid Hs_one_update 10 3.3 9.81 0) = Some 1.0015"
    using Hs_one_update_eq by (rule first_ratio_10)
  have r1: "ratio_of omega_grid Hs_one_update 10 3.3 9.81
              (alpha_after omega_grid Hs_one_update 10 3.3 9.81 1) = Some (sqrt 1.0015)"
    using Hs_one_update_eq c by (rule second_ratio_10(2))
  have a1: "alpha_after omega_grid Hs_one_update 10 3.3 9.81 1 = Some (0.0081 * 1.0015)"
    using Hs_one_update_eq c by (rule second_ratio_10(1))
  have w0: "\<not> within_tolerance (ratio_of omega_grid Hs_one_update 10 3.3 9.81
                        (alpha_after omega_grid Hs_one_update 10 3.3 9.81 0))"
    unfolding r0 by (simp add: within_tolerance_def tolerance_def)
  have w1: "within_tolerance (ratio_of omega_grid Hs_one_update 10 3.3 9.81
                      (alpha_after omega_grid Hs_one_update 10 3.3 9.81 1))"
    unfolding r1 using sqrt_within by (simp add: within_tolerance_def tolerance_def)
  have f: "\<forall>j < 1. \<not> within_tolerance (ratio_of omega_grid Hs_one_update 10 3.3 9.81
                        (alpha_after omega_grid Hs_one_update 10 3.3 9.81 j))"
    using w0 by simp
  have "(1::nat) < 50" by simp
  with one w1 f have "calculateAlphaIterative omega_grid Hs_one_update 10 3.3 9.81
        = alpha_after omega_grid Hs_one_update 10 3.3 9.81 1"
    by blast
  then have r: "calculateAlphaIterative omega_grid Hs_one_update 10 3.3 9.81 = Some (0.0081 * 1.0015)"
    unfolding a1 .
  show ?thesis using b u(2) e u(3) w0 w1 r by blast
qed

text \<open>
  The claim C1 as stated fails at the edge of the tolerance: for this target the loop
  stops at its first check with the initial alpha, since the ratio \<open>Hs / (4 sqrt m0)\<close>
  is 0.9990005, while \<open>4 sqrt m0 / Hs\<close> is off 1 by more than 0.001.
\<close>

theorem calibration_outside_claimed_tolerance:
  "0 < Hs_near_tolerance \<and>
   calculateAlphaIterative omega_grid Hs_near_tolerance 10 3.3 9.81 = Some 0.0081 \<and>
   spectrum_m0 (calculateSpectrum Hs_near_tolerance 10) = Some (0.0081 * unit_m0 10 3.3 9.81) \<and>
   0 < 0.0081 * unit_m0 10 3.3 9.81 \<and>
   \<bar>Hs_near_tolerance / (4 * sqrt (0.0081 * unit_m0 10 3.3 9.81)) - 1\<bar> < 1 / 1000 \<and>
   \<not> \<bar>4 * sqrt (0.0081 * unit_m0 10 3.3 9.81) / Hs_near_tolerance - 1\<bar> < 1 / 1000"
proof -
  define E where "E = 4 * sqrt (0.0081 * unit_m0 10 3.3 9.81)"
  have e0: "0 < E" unfolding E_def by (rule first_estimate_10(3))
  have h: "Hs_near_tolerance = 0.9990005 * E" unfolding E_def by (rule Hs_near_tolerance_eq)
  have r: "Hs_near_tolerance / E = 0.9990005" unfolding h using e0 by simp
  have i: "E / Hs_near_tolerance = 10000000 / 9990005" unfolding h using e0 by simp
  have p: "0 < Hs_near_tolerance" unfolding h using e0 by simp
  have r0: "ratio_of omega_grid Hs_near_tolerance 10 3.3 9.81
              (alpha_after omega_grid Hs_near_tolerance 10 3.3 9.81 0) = Some 0.9990005"
    using Hs_near_tolerance_eq by (rule first_ratio_10)
  have w: "within_tolerance (ratio_of omega_grid Hs_near_tolerance 10 3.3 9.81
              (alpha_after omega_grid Hs_near_tolerance 10 3.3 9.81 0))"
    unfolding r0 by (simp add: within_tolerance_def tolerance_def)
  have "calculateAlphaIterative omega_grid Hs_near_tolerance 10 3.3 9.81
        = alpha_after omega_grid Hs_near_tolerance 10 3.3 9.81 0"
    using _ w by (rule returns_first_pass) simp_all
  then have a: "calculateAlphaIterative omega_grid Hs_near_tolerance 10 3.3 9.81 = Some 0.0081"
    unfolding alpha_after_def by simp
  have m: "spectrum_m0 (calculateSpectrum Hs_near_tolerance 10) = Some (0.0081 * unit_m0 10 3.3 9.81)"
    unfolding spectrum_m0_eq a by (rule m0_Some) simp
  have u: "0 < 0.0081 * unit_m0 10 3.3 9.81" using first_estimate_10(1) by simp
  have c1: "\<bar>Hs_near_tolerance / E - 1\<bar> < 1 / 1000" unfolding r by simp
  have c2: "\<not> \<bar>E / Hs_near_tolerance - 1\<bar> < 1 / 1000" unfolding i by simp
  show ?thesis using p a m u c1 c2 unfolding E_def by blast
qed

end
